theory Spec2Isabelle
  imports Main "HOL-Library.Sublist"
begin

section \<open>The workflow orchestrator (js-scraper/adk_workflow_orchestrator.mjs)\<close>

subsection \<open>Agents, external capabilities and values\<close>

text \<open>
  The seven agents of \<^verbatim>\<open>this.agents\<close>, named as the fields of the source.
\<close>

datatype agent =
    marketDataFetcher | tiktokScraper | telegramScraper | outlightScraper
  | patternAnalyzer | twitterAlerts | dashboardUpdater

text \<open>An input object is a list of fields; a field holds a string or a number.\<close>

datatype jsval = Str string | Num int

type_synonym input = "(string \<times> jsval) list"

text \<open>
  An awaited call either yields a value or throws; \<open>Throws m\<close> carries
  \<^verbatim>\<open>error.message\<close>.
\<close>

datatype 'a outcome = Returns 'a | Throws string

text \<open>
  The object built by
  \<^verbatim>\<open>AgentBuilder.create(name).asSequential(agents).build()\<close>.
\<close>

datatype workflow = Workflow string "agent list"

text \<open>
  The agent framework and the clock are outside the repository. They are a parameter of
  every operation: \<open>build\<close> says whether building a workflow throws (\<open>Some m\<close>) or
  not, \<open>workflow_run\<close> and \<open>agent_run\<close> are the \<^verbatim>\<open>run\<close> methods of a built
  workflow and of a single agent, \<open>tool_execute\<close> is the \<^verbatim>\<open>execute\<close> method of a
  tool object, \<open>clock\<close> is \<^verbatim>\<open>new Date().toISOString()\<close> and \<open>node_env\<close> is
  \<^verbatim>\<open>process.env.NODE_ENV\<close>. The type \<open>'r\<close> is whatever the framework returns.
\<close>

datatype tool =
    MarketDataTool | TikTokScrapingTool | TelegramScrapingTool | OutlightScrapingTool
  | PatternAnalysisTool | TwitterAPITool | DashboardSyncTool

record 'r adk =
  build :: "string \<Rightarrow> agent list \<Rightarrow> string option"
  workflow_run :: "workflow \<Rightarrow> input \<Rightarrow> 'r outcome"
  agent_run :: "agent \<Rightarrow> input \<Rightarrow> 'r outcome"
  tool_execute :: "tool \<Rightarrow> input \<Rightarrow> 'r outcome"
  clock :: string
  node_env :: string

text \<open>Every call that leaves the orchestrator is logged, in the order it is made.\<close>

datatype call =
    Build string "agent list"
  | WorkflowRun workflow input
  | AgentRun agent input
  | ToolExecute tool input

text \<open>The fields of \<^verbatim>\<open>IrisWorkflowOrchestrator\<close> that its methods read and write.\<close>

record orchestrator =
  workflow :: "workflow option"
  isRunning :: bool
  sessionId :: string

text \<open>
  The report object \<^verbatim>\<open>{ success, mode, error, results, timestamp }\<close>;
  \<open>results\<close> keeps the keys in the order they were assigned.
\<close>

record 'r report =
  success :: bool
  mode :: string
  error :: "string option"
  results :: "(string \<times> 'r) list"
  timestamp :: string

text \<open>The object returned by \<^verbatim>\<open>getStatus\<close>.\<close>

record status =
  status_isRunning :: bool
  status_sessionId :: string
  status_agents :: "(string \<times> string) list"
  status_workflow :: string
  status_timestamp :: string

text \<open>
  What a method of the orchestrator can hand back to its caller: nothing
  (\<^verbatim>\<open>return;\<close>), the value of the framework's workflow, a report object, or a status
  object.
\<close>

datatype 'r jsresult = Undefined | Result 'r | Report "'r report" | StatusObject status

subsection \<open>createWorkflow\<close>

text \<open>The array handed to \<^verbatim>\<open>asSequential\<close> in \<^verbatim>\<open>createWorkflow\<close>.\<close>

definition pipeline_agents :: "agent list" where
  "pipeline_agents =
     [marketDataFetcher, tiktokScraper, telegramScraper, outlightScraper,
      patternAnalyzer, twitterAlerts, dashboardUpdater]"

text \<open>
  The inner \<^verbatim>\<open>try\<close> catches a failing build, sets \<^verbatim>\<open>this.workflow = null\<close>
  and returns; nothing is thrown to the caller.
\<close>

definition createWorkflow :: "'r adk \<Rightarrow> orchestrator \<Rightarrow> orchestrator \<times> call list" where
  "createWorkflow env s =
     (case build env ''iris_memecoin_pipeline'' pipeline_agents of
        None \<Rightarrow>
          (s\<lparr>workflow := Some (Workflow ''iris_memecoin_pipeline'' pipeline_agents)\<rparr>,
           [Build ''iris_memecoin_pipeline'' pipeline_agents])
      | Some adkError \<Rightarrow>
          (s\<lparr>workflow := None\<rparr>, [Build ''iris_memecoin_pipeline'' pipeline_agents]))"

subsection \<open>runManualWorkflow\<close>

text \<open>
  The body of the \<^verbatim>\<open>try\<close> block is a sequence of statements
  \<^verbatim>\<open>results.key = await this.agents.agent.run({ input })\<close>. \<open>run_steps\<close> executes
  such a sequence: a call that throws leaves the block at once, with the results assigned
  so far and the message of the error.
\<close>

type_synonym step = "string \<times> agent \<times> input"

fun run_steps ::
  "'r adk \<Rightarrow> step list \<Rightarrow> (string \<times> 'r) list \<Rightarrow> (string \<times> 'r) list \<times> string option \<times> call list"
where
  "run_steps env [] res = (res, None, [])"
| "run_steps env ((key, a, inp) # rest) res =
     (case agent_run env a inp of
        Throws m \<Rightarrow> (res, Some m, [AgentRun a inp])
      | Returns r \<Rightarrow>
          (case run_steps env rest (res @ [(key, r)]) of
             (res', e, calls) \<Rightarrow> (res', e, AgentRun a inp # calls)))"

definition manual_steps :: "step list" where
  "manual_steps =
     [(''marketData'', marketDataFetcher, [(''mode'', Str ''full_collection'')]),
      (''tiktokScraping'', tiktokScraper,
         [(''mode'', Str ''full_scraping''), (''maxVideos'', Num 100)]),
      (''telegramScraping'', telegramScraper,
         [(''mode'', Str ''full_scraping''), (''maxChannels'', Num 10)]),
      (''outlightScraping'', outlightScraper, [(''mode'', Str ''full_discovery'')]),
      (''patternAnalysis'', patternAnalyzer, [(''mode'', Str ''comprehensive_analysis'')]),
      (''twitterAlerts'', twitterAlerts, [(''mode'', Str ''alert_generation'')]),
      (''dashboardUpdate'', dashboardUpdater, [(''mode'', Str ''full_update'')])]"

definition runManualWorkflow :: "'r adk \<Rightarrow> 'r report \<times> call list" where
  "runManualWorkflow env =
     (case run_steps env manual_steps [] of
        (res, None, calls) \<Rightarrow>
          (\<lparr>success = True, mode = ''manual'', error = None, results = res,
            timestamp = clock env\<rparr>, calls)
      | (res, Some m, calls) \<Rightarrow>
          (\<lparr>success = False, mode = ''manual'', error = Some m, results = res,
            timestamp = clock env\<rparr>, calls))"

subsection \<open>start, stop, getStatus\<close>

definition start_input :: "'r adk \<Rightarrow> orchestrator \<Rightarrow> input" where
  "start_input env s =
     [(''timestamp'', Str (clock env)), (''sessionId'', Str (sessionId s)),
      (''mode'', Str ''full_analysis''),
      (''environment'', Str (if node_env env = [] then ''development'' else node_env env)),
      (''version'', Str ''1.0.0'')]"

text \<open>
  \<open>start\<close> returns what the caller gets (a value, or the error rethrown by the outer
  \<^verbatim>\<open>catch\<close>), the orchestrator afterwards, and the calls made.
\<close>

definition start ::
  "'r adk \<Rightarrow> orchestrator \<Rightarrow> 'r jsresult outcome \<times> orchestrator \<times> call list" where
  "start env s =
     (if isRunning s then (Returns Undefined, s, [])
      else
        (case (if workflow s = None then createWorkflow env s else (s, [])) of
           (s1, calls1) \<Rightarrow>
             (case workflow s1 of
                Some w \<Rightarrow>
                  (case workflow_run env w (start_input env s1) of
                     Throws m \<Rightarrow>
                       (Throws m, s1, calls1 @ [WorkflowRun w (start_input env s1)])
                   | Returns r \<Rightarrow>
                       (Returns (Result r), s1\<lparr>isRunning := True\<rparr>,
                        calls1 @ [WorkflowRun w (start_input env s1)]))
              | None \<Rightarrow>
                  (case runManualWorkflow env of
                     (rep, calls2) \<Rightarrow>
                       (Returns (Report rep), s1\<lparr>isRunning := True\<rparr>, calls1 @ calls2)))))"

definition stop :: "orchestrator \<Rightarrow> orchestrator" where
  "stop s = s\<lparr>isRunning := False\<rparr>"

text \<open>
  \<^verbatim>\<open>Object.keys(this.agents)\<close> lists the agents in the order
  \<^verbatim>\<open>initializeAgents\<close> assigned them.
\<close>

definition agent_keys :: "string list" where
  "agent_keys =
     [''tiktokScraper'', ''telegramScraper'', ''patternAnalyzer'', ''marketDataFetcher'',
      ''twitterAlerts'', ''outlightScraper'', ''dashboardUpdater'']"

definition getStatus :: "'r adk \<Rightarrow> orchestrator \<Rightarrow> status" where
  "getStatus env s =
     \<lparr>status_isRunning = isRunning s,
      status_sessionId = sessionId s,
      status_agents = map (\<lambda>name. (name, ''initialized'')) agent_keys,
      status_workflow = (if workflow s = None then ''not_created'' else ''created''),
      status_timestamp = clock env\<rparr>"

subsection \<open>runPeriodicAnalysis and the timer of main\<close>

definition periodic_agents :: "agent list" where
  "periodic_agents = [outlightScraper, patternAnalyzer, twitterAlerts, dashboardUpdater]"

definition periodic_steps :: "step list" where
  "periodic_steps =
     [(''outlightScraping'', outlightScraper, [(''mode'', Str ''periodic_discovery'')]),
      (''patternAnalysis'', patternAnalyzer, [(''mode'', Str ''quick_analysis'')]),
      (''twitterAlerts'', twitterAlerts, [(''mode'', Str ''periodic_alerts'')]),
      (''dashboardUpdate'', dashboardUpdater, [(''mode'', Str ''periodic_update'')])]"

definition periodic_input :: "'r adk \<Rightarrow> input" where
  "periodic_input env = [(''timestamp'', Str (clock env)), (''mode'', Str ''periodic_analysis'')]"

text \<open>
  The manual fallback of \<^verbatim>\<open>runPeriodicAnalysis\<close> sits in the \<^verbatim>\<open>catch\<close> of the
  inner \<^verbatim>\<open>try\<close>: an agent that throws there is caught by the outer \<^verbatim>\<open>catch\<close>,
  which logs the error, and the method returns nothing.
\<close>

definition periodic_manual :: "'r adk \<Rightarrow> 'r jsresult \<times> call list" where
  "periodic_manual env =
     (case run_steps env periodic_steps [] of
        (res, None, calls) \<Rightarrow>
          (Report \<lparr>success = True, mode = ''manual'', error = None, results = res,
                   timestamp = clock env\<rparr>, calls)
      | (res, Some m, calls) \<Rightarrow> (Undefined, calls))"

text \<open>The method reads \<^verbatim>\<open>this.isRunning\<close> and writes no field of the orchestrator.\<close>

definition runPeriodicAnalysis :: "'r adk \<Rightarrow> orchestrator \<Rightarrow> 'r jsresult \<times> call list" where
  "runPeriodicAnalysis env s =
     (if \<not> isRunning s then (Undefined, [])
      else
        (case build env ''periodic_analysis'' periodic_agents of
           Some adkError \<Rightarrow>
             (case periodic_manual env of
                (v, calls) \<Rightarrow> (v, Build ''periodic_analysis'' periodic_agents # calls))
         | None \<Rightarrow>
             (case workflow_run env (Workflow ''periodic_analysis'' periodic_agents)
                     (periodic_input env) of
                Returns r \<Rightarrow>
                  (Result r,
                   [Build ''periodic_analysis'' periodic_agents,
                    WorkflowRun (Workflow ''periodic_analysis'' periodic_agents)
                      (periodic_input env)])
              | Throws adkError \<Rightarrow>
                  (case periodic_manual env of
                     (v, calls) \<Rightarrow>
                       (v, Build ''periodic_analysis'' periodic_agents
                           # WorkflowRun (Workflow ''periodic_analysis'' periodic_agents)
                               (periodic_input env)
                           # calls)))))"

text \<open>
  \<^verbatim>\<open>main\<close> calls \<^verbatim>\<open>orchestrator.runPeriodicAnalysis()\<close> from
  \<^verbatim>\<open>setInterval\<close> and does not await the promise. The timer state is the orchestrator
  together with the number of periodic runs that have begun and not yet finished.
  A tick begins a run when the call gets past the guard of \<^verbatim>\<open>runPeriodicAnalysis\<close>,
  that is, when it makes at least one call; a run that finishes leaves the count.
\<close>

record timer_state =
  orch :: orchestrator
  in_flight :: nat

definition tick :: "'r adk \<Rightarrow> timer_state \<Rightarrow> timer_state" where
  "tick env i =
     (if snd (runPeriodicAnalysis env (orch i)) = [] then i
      else i\<lparr>in_flight := Suc (in_flight i)\<rparr>)"

definition run_finished :: "timer_state \<Rightarrow> timer_state" where
  "run_finished i = i\<lparr>in_flight := in_flight i - 1\<rparr>"

subsection \<open>runAgentsIndividually (the variant of the orchestrator in unnamed/part\_001)\<close>

text \<open>
  Each step of this variant has a \<^verbatim>\<open>try\<close> of its own around the
  \<^verbatim>\<open>execute\<close> of a tool; the \<^verbatim>\<open>catch\<close> stores
  \<^verbatim>\<open>{ success: false, error: error.message }\<close> under the step's key.
\<close>

datatype 'r entry = ToolResult 'r | CaughtError string

type_synonym tool_step = "string \<times> tool \<times> input"

fun run_tool_steps ::
  "'r adk \<Rightarrow> tool_step list \<Rightarrow> (string \<times> 'r entry) list \<Rightarrow> (string \<times> 'r entry) list \<times> call list"
where
  "run_tool_steps env [] res = (res, [])"
| "run_tool_steps env ((key, t, inp) # rest) res =
     (case run_tool_steps env rest
             (res @ [(key, case tool_execute env t inp of
                             Returns r \<Rightarrow> ToolResult r
                           | Throws m \<Rightarrow> CaughtError m)]) of
        (res', calls) \<Rightarrow> (res', ToolExecute t inp # calls))"

definition individual_steps :: "tool_step list" where
  "individual_steps =
     [(''marketData'', MarketDataTool, [(''mode'', Str ''test''), (''maxTokens'', Num 10)]),
      (''tiktok'', TikTokScrapingTool, [(''mode'', Str ''test''), (''maxVideos'', Num 5)]),
      (''telegram'', TelegramScrapingTool,
         [(''mode'', Str ''test''), (''maxChannels'', Num 2)]),
      (''outlight'', OutlightScrapingTool,
         [(''mode'', Str ''test''), (''maxChannels'', Num 2)]),
      (''patternAnalysis'', PatternAnalysisTool,
         [(''mode'', Str ''test''), (''analysisType'', Str ''quick'')]),
      (''twitter'', TwitterAPITool, [(''mode'', Str ''test''), (''dryRun'', Num 1)]),
      (''dashboard'', DashboardSyncTool,
         [(''mode'', Str ''test''), (''updateType'', Str ''status'')])]"

definition runAgentsIndividually ::
  "'r adk \<Rightarrow> orchestrator \<Rightarrow> 'r entry report \<times> orchestrator \<times> call list" where
  "runAgentsIndividually env s =
     (case run_tool_steps env individual_steps [] of
        (res, calls) \<Rightarrow>
          (\<lparr>success = True, mode = ''individual_execution'', error = None, results = res,
            timestamp = clock env\<rparr>,
           s\<lparr>isRunning := True\<rparr>, calls))"

section \<open>The TikTok scraping tool (TikTokScrapingTool)\<close>

subsection \<open>Numbers: parseFloat, multiplication and Math.floor\<close>

text \<open>
  A JavaScript number is an IEEE 754 binary64 value. \<open>DFin neg m t\<close> is the finite
  value \<open>m * 2 ^ t\<close>, negated when \<open>neg\<close> holds; the same value may have several
  such representations, and zero of either sign is \<open>DFin neg 0 t\<close>.
\<close>

datatype double = DNaN | DInf bool | DFin bool nat int

text \<open>\<open>ilog2 n\<close> is the position of the highest bit of \<open>n\<close>: the floor of its binary logarithm.\<close>

fun ilog2 :: "nat \<Rightarrow> nat" where
  "ilog2 n = (if n < 2 then 0 else Suc (ilog2 (n div 2)))"

declare ilog2.simps [simp del]

text \<open>\<open>ge_pow2 p q e\<close> decides \<open>2 ^ e \<le> p / q\<close> for an integer \<open>e\<close> of either sign.\<close>

definition ge_pow2 :: "nat \<Rightarrow> nat \<Rightarrow> int \<Rightarrow> bool" where
  "ge_pow2 p q e = (if 0 \<le> e then q * 2 ^ nat e \<le> p else q \<le> p * 2 ^ nat (- e))"

text \<open>
  \<open>round_double neg p q\<close> is the binary64 value nearest to the positive rational
  \<open>p / q\<close> (round to nearest, ties to even), with the sign \<open>neg\<close>: \<open>e\<close> is the binary
  exponent of \<open>p / q\<close>, \<open>t\<close> the exponent of the last of its 53 bits (never below that of
  the subnormal numbers), \<open>m\<close> the quotient \<open>p / (q * 2 ^ t)\<close> rounded to an integer. A
  result of \<open>2 ^ 1024\<close> or more is infinite.
\<close>

definition round_double :: "bool \<Rightarrow> nat \<Rightarrow> nat \<Rightarrow> double" where
  "round_double neg p q =
     (let e0 = int (ilog2 p) - int (ilog2 q);
          e = (if ge_pow2 p q e0 then e0 else e0 - 1);
          t = max e (- 1022) - 52;
          num = (if 0 \<le> t then p else p * 2 ^ nat (- t));
          den = (if 0 \<le> t then q * 2 ^ nat t else q);
          m0 = num div den;
          r = num mod den;
          m = (if 2 * r < den then m0
               else if den < 2 * r then m0 + 1
               else if even m0 then m0 else m0 + 1)
      in if 0 \<le> t \<and> 2 ^ 1024 \<le> m * 2 ^ nat t then DInf neg else DFin neg m t)"

text \<open>
  Strings are lists of 8-bit code units. The white space that \<^verbatim>\<open>parseFloat\<close> skips
  is, in this range, TAB, LF, VT, FF, CR, space and the no-break space.
\<close>

definition is_space :: "char \<Rightarrow> bool" where
  "is_space c = (c \<in> set [CHR 0x09, CHR 0x0A, CHR 0x0B, CHR 0x0C, CHR 0x0D, CHR 0x20, CHR 0xA0])"

definition is_digit :: "char \<Rightarrow> bool" where
  "is_digit c = (c \<in> set ''0123456789'')"

definition digit_val :: "char \<Rightarrow> nat" where
  "digit_val c = length (takeWhile (\<lambda>d. d \<noteq> c) ''0123456789'')"

definition digits_val :: "string \<Rightarrow> nat" where
  "digits_val ds = foldl (\<lambda>acc c. 10 * acc + digit_val c) 0 ds"

text \<open>
  The exponent part of a numeral: \<^verbatim>\<open>e\<close> or \<^verbatim>\<open>E\<close>, an optional sign and at
  least one digit. Without a digit there is no exponent part and the numeral ends before
  the letter.
\<close>

definition exponent_part :: "string \<Rightarrow> int" where
  "exponent_part s =
     (case s of
        [] \<Rightarrow> 0
      | c # rest \<Rightarrow>
          if c = CHR ''e'' \<or> c = CHR ''E'' then
            (case rest of
               [] \<Rightarrow> 0
             | d # rest' \<Rightarrow>
                 if d = CHR ''-'' then - int (digits_val (takeWhile is_digit rest'))
                 else if d = CHR ''+'' then int (digits_val (takeWhile is_digit rest'))
                 else int (digits_val (takeWhile is_digit rest)))
          else 0)"

text \<open>
  \<open>unsigned_literal neg s\<close> reads the longest prefix of \<open>s\<close> that is a
  \<^verbatim>\<open>StrUnsignedDecimalLiteral\<close>: \<^verbatim>\<open>Infinity\<close>, or digits with an optional
  fraction and an optional exponent part. Its value is the digits of the integer and
  fraction parts, as one integer, times a power of ten, rounded to a binary64 value.
  When no prefix is a literal the result is \<^verbatim>\<open>NaN\<close>.
\<close>

definition unsigned_literal :: "bool \<Rightarrow> string \<Rightarrow> double" where
  "unsigned_literal neg s =
     (if take 8 s = ''Infinity'' then DInf neg
      else
        (let ip = takeWhile is_digit s;
             rest1 = dropWhile is_digit s;
             has_dot = (rest1 \<noteq> [] \<and> hd rest1 = CHR ''.'');
             fp = (if has_dot then takeWhile is_digit (tl rest1) else []);
             rest2 = (if has_dot then dropWhile is_digit (tl rest1) else rest1);
             d = digits_val (ip @ fp);
             k = exponent_part rest2 - int (length fp)
         in if ip = [] \<and> fp = [] then DNaN
            else if d = 0 then DFin neg 0 0
            else if 0 \<le> k then round_double neg (d * 10 ^ nat k) 1
            else round_double neg d (10 ^ nat (- k))))"

definition parseFloat :: "string \<Rightarrow> double" where
  "parseFloat s =
     (case dropWhile is_space s of
        [] \<Rightarrow> DNaN
      | c # rest \<Rightarrow>
          if c = CHR ''-'' then unsigned_literal True rest
          else if c = CHR ''+'' then unsigned_literal False rest
          else unsigned_literal False (c # rest))"

text \<open>The product of a number and a positive integer that is itself a binary64 value.\<close>

definition times :: "double \<Rightarrow> nat \<Rightarrow> double" where
  "times x k =
     (case x of
        DNaN \<Rightarrow> DNaN
      | DInf neg \<Rightarrow> DInf neg
      | DFin neg m t \<Rightarrow>
          if m = 0 then DFin neg 0 0
          else if 0 \<le> t then round_double neg (m * k * 2 ^ nat t) 1
          else round_double neg (m * k) (2 ^ nat (- t)))"

text \<open>
  What \<^verbatim>\<open>formatViews\<close> returns: \<^verbatim>\<open>NaN\<close>, an infinity, or a finite number,
  which after \<^verbatim>\<open>Math.floor\<close> is an integer (a zero of either sign is \<open>Integer 0\<close>).
\<close>

datatype number = NaN | PosInfinity | NegInfinity | Integer int

definition floor_double :: "double \<Rightarrow> number" where
  "floor_double x =
     (case x of
        DNaN \<Rightarrow> NaN
      | DInf neg \<Rightarrow> (if neg then NegInfinity else PosInfinity)
      | DFin neg m t \<Rightarrow>
          if 0 \<le> t then Integer ((if neg then - int m else int m) * 2 ^ nat t)
          else Integer ((if neg then - int m else int m) div 2 ^ nat (- t)))"

subsection \<open>formatViews, sanitize, getTiktokId\<close>

text \<open>
  \<^verbatim>\<open>toLowerCase\<close> on 8-bit code units: the letters \<^verbatim>\<open>A\<close> to \<^verbatim>\<open>Z\<close> and the
  capital letters of Latin-1 (\<^verbatim>\<open>0xC0\<close> to \<^verbatim>\<open>0xDE\<close> without the multiplication
  sign) move to their small forms, 32 places further on.
\<close>

definition upper_case :: "char list" where
  "upper_case = ''ABCDEFGHIJKLMNOPQRSTUVWXYZ'' @ [
      CHR 0xC0, CHR 0xC1, CHR 0xC2, CHR 0xC3, CHR 0xC4, CHR 0xC5, CHR 0xC6, CHR 0xC7,
      CHR 0xC8, CHR 0xC9, CHR 0xCA, CHR 0xCB, CHR 0xCC, CHR 0xCD, CHR 0xCE, CHR 0xCF,
      CHR 0xD0, CHR 0xD1, CHR 0xD2, CHR 0xD3, CHR 0xD4, CHR 0xD5, CHR 0xD6, CHR 0xD8,
      CHR 0xD9, CHR 0xDA, CHR 0xDB, CHR 0xDC, CHR 0xDD, CHR 0xDE]"

definition lower_case :: "char list" where
  "lower_case = ''abcdefghijklmnopqrstuvwxyz'' @ [
      CHR 0xE0, CHR 0xE1, CHR 0xE2, CHR 0xE3, CHR 0xE4, CHR 0xE5, CHR 0xE6, CHR 0xE7,
      CHR 0xE8, CHR 0xE9, CHR 0xEA, CHR 0xEB, CHR 0xEC, CHR 0xED, CHR 0xEE, CHR 0xEF,
      CHR 0xF0, CHR 0xF1, CHR 0xF2, CHR 0xF3, CHR 0xF4, CHR 0xF5, CHR 0xF6, CHR 0xF8,
      CHR 0xF9, CHR 0xFA, CHR 0xFB, CHR 0xFC, CHR 0xFD, CHR 0xFE]"

definition toLowerCase_char :: "char \<Rightarrow> char" where
  "toLowerCase_char c =
     (case map_of (zip upper_case lower_case) c of Some l \<Rightarrow> l | None \<Rightarrow> c)"

definition unitMultiplier :: "char \<Rightarrow> nat option" where
  "unitMultiplier u =
     (if u = CHR ''k'' then Some 1000
      else if u = CHR ''m'' then Some 1000000
      else if u = CHR ''b'' then Some 1000000000
      else None)"

definition formatViews :: "string \<Rightarrow> number" where
  "formatViews views =
     (if views = [] then Integer 0
      else
        (case unitMultiplier (toLowerCase_char (last views)) of
           Some mult \<Rightarrow> floor_double (times (parseFloat (butlast views)) mult)
         | None \<Rightarrow>
             (case floor_double (parseFloat views) of
                NaN \<Rightarrow> Integer 0
              | PosInfinity \<Rightarrow> PosInfinity
              | NegInfinity \<Rightarrow> NegInfinity
              | Integer n \<Rightarrow> Integer n)))"

definition sanitize :: "string \<Rightarrow> string" where
  "sanitize str = filter (\<lambda>c. c \<noteq> CHR 0x00) str"

text \<open>
  \<^verbatim>\<open>url.match(/\/video\/(\d+)/)\<close>: the digits that follow the first
  \<^verbatim>\<open>/video/\<close> that is followed by a digit.
\<close>

fun getTiktokId :: "string \<Rightarrow> string option" where
  "getTiktokId [] = None"
| "getTiktokId (c # cs) =
     (if take 7 (c # cs) = ''/video/'' \<and> takeWhile is_digit (drop 7 (c # cs)) \<noteq> []
      then Some (takeWhile is_digit (drop 7 (c # cs)))
      else getTiktokId cs)"

subsection \<open>Scraped videos and the tables of the store\<close>

text \<open>
  The object that \<^verbatim>\<open>extractComments\<close> returns: a count and, when present, the
  \<^verbatim>\<open>tickers\<close> object, given as its entries in the order of \<^verbatim>\<open>Object.entries\<close>.
\<close>

record comments =
  count :: int
  tickers :: "(string \<times> int) list option"

text \<open>
  The object that \<^verbatim>\<open>VideoScraper.extractVideoData\<close> returns. A missing
  \<^verbatim>\<open>video_url\<close>, \<^verbatim>\<open>author\<close> or \<^verbatim>\<open>thumbnail_url\<close> is the empty string (both
  are falsy); \<open>views\<close> is \<^verbatim>\<open>video.views?.toString()\<close>.
\<close>

record video =
  video_url :: string
  author :: string
  thumbnail_url :: string
  posted_timestamp :: "int option"
  views :: "string option"
  video_comments :: "comments option"

text \<open>
  The rows of the tables \<^verbatim>\<open>tiktoks\<close>, \<^verbatim>\<open>mentions\<close> and \<^verbatim>\<open>tokens\<close>. The
  columns carry the table's initial, since a column name such as \<^verbatim>\<open>id\<close> or
  \<^verbatim>\<open>count\<close> is already in use. Times are milliseconds since the epoch;
  \<^verbatim>\<open>toISOString\<close> writes them as text.
\<close>

record tiktok_row =
  t_id :: string
  t_username :: string
  t_url :: string
  t_thumbnail :: string
  t_created_at :: int
  t_fetched_at :: int
  t_views :: number
  t_comments :: int

record mention_row =
  m_tiktok_id :: string
  m_count :: int
  m_token_id :: int
  m_mention_at :: int

record token =
  k_id :: int
  k_symbol :: string

record db =
  tiktoks :: "tiktok_row list"
  mentions :: "mention_row list"
  tokens :: "token list"

text \<open>
  The store is outside the repository. Whether it accepts a request is a parameter:
  a rejected \<^verbatim>\<open>upsert\<close> or \<^verbatim>\<open>insert\<close> comes back as an error object and
  writes nothing, a failed \<^verbatim>\<open>select\<close> comes back with \<^verbatim>\<open>data: null\<close>.
\<close>

record supabase =
  accepts_upsert :: "tiktok_row \<Rightarrow> bool"
  select_ok :: bool
  accepts_insert :: "mention_row list \<Rightarrow> bool"

text \<open>
  Modelled from the spec: the persistent store capability
  \<^verbatim>\<open>upsert(table, record, conflict_key)\<close>, called here as
  \<^verbatim>\<open>upsert(tiktokRecord, { onConflict: 'id' })\<close>. A row with the record's
  \<^verbatim>\<open>id\<close> is replaced by the record; without such a row the record is added.
\<close>

definition upsert :: "tiktok_row \<Rightarrow> tiktok_row list \<Rightarrow> tiktok_row list" where
  "upsert r tbl =
     (if t_id r \<in> set (map t_id tbl)
      then map (\<lambda>x. if t_id x = t_id r then r else x) tbl
      else tbl @ [r])"

text \<open>
  Modelled from the spec: the persistent store capability
  \<^verbatim>\<open>insert(table, records)\<close>, called with no conflict key: the records are added to
  the table.
\<close>

definition insert_rows :: "mention_row list \<Rightarrow> mention_row list \<Rightarrow> mention_row list" where
  "insert_rows rows tbl = tbl @ rows"

subsection \<open>storeTokenMentions\<close>

text \<open>
  The \<^verbatim>\<open>Map\<close> from a symbol to the ids of the tokens that carry it, filled by
  \<^verbatim>\<open>tokens.forEach\<close>; \<open>add_token\<close> is the body of its callback.
\<close>

definition add_token :: "(string \<Rightarrow> int list option) \<Rightarrow> token \<Rightarrow> string \<Rightarrow> int list option" where
  "add_token m tok =
     m(k_symbol tok \<mapsto>
         (case m (k_symbol tok) of None \<Rightarrow> [] | Some tokenIds \<Rightarrow> tokenIds) @ [k_id tok])"

definition symbolToTokens :: "token list \<Rightarrow> string \<Rightarrow> int list option" where
  "symbolToTokens toks = foldl add_token Map.empty toks"

text \<open>The array \<^verbatim>\<open>mentionsData\<close>: the nested iteration over the tickers and the token ids.\<close>

definition mentionsData ::
  "(string \<Rightarrow> int list option) \<Rightarrow> string \<Rightarrow> int \<Rightarrow> (string \<times> int) list \<Rightarrow> mention_row list"
where
  "mentionsData m tiktokId mentionAt entries =
     concat (map (\<lambda>(symbol, cnt).
                    case m symbol of
                      None \<Rightarrow> []
                    | Some tokenIds \<Rightarrow>
                        map (\<lambda>tokenId.
                               \<lparr>m_tiktok_id = tiktokId, m_count = cnt, m_token_id = tokenId,
                                m_mention_at = mentionAt\<rparr>) tokenIds)
             entries)"

text \<open>
  The tokens are selected in ascending order of \<^verbatim>\<open>id\<close>. A failed select leaves
  \<^verbatim>\<open>tokens\<close> null, \<^verbatim>\<open>tokens.forEach\<close> throws, and the \<^verbatim>\<open>catch\<close> logs the
  error: nothing is written. The method returns nothing on every path.
\<close>

definition storeTokenMentions ::
  "supabase \<Rightarrow> int \<Rightarrow> string \<Rightarrow> comments option \<Rightarrow> db \<Rightarrow> db" where
  "storeTokenMentions sb now tiktokId cs d =
     (case cs of
        None \<Rightarrow> d
      | Some c \<Rightarrow>
          (case tickers c of
             None \<Rightarrow> d
           | Some entries \<Rightarrow>
               if \<not> select_ok sb then d
               else
                 (let rows = mentionsData (symbolToTokens (sort_key k_id (tokens d)))
                               tiktokId now entries
                  in if rows \<noteq> [] \<and> accepts_insert sb rows
                     then d\<lparr>mentions := insert_rows rows (mentions d)\<rparr>
                     else d)))"

subsection \<open>storeVideos\<close>

text \<open>
  \<^verbatim>\<open>created_at\<close>: the posted time in seconds, when there is one and it is not zero,
  else the current time. \<^verbatim>\<open>toISOString\<close> throws a \<^verbatim>\<open>RangeError\<close> for a time
  outside the range of \<^verbatim>\<open>Date\<close>; the \<^verbatim>\<open>catch\<close> around the video logs it and
  the video is skipped.
\<close>

definition created_at :: "video \<Rightarrow> int \<Rightarrow> int option" where
  "created_at v now =
     (case posted_timestamp v of
        None \<Rightarrow> Some now
      | Some ts \<Rightarrow>
          if ts = 0 then Some now
          else if \<bar>ts * 1000\<bar> \<le> 8640000000000000 then Some (ts * 1000)
          else None)"

definition tiktokRecord :: "string \<Rightarrow> int \<Rightarrow> int \<Rightarrow> video \<Rightarrow> tiktok_row" where
  "tiktokRecord tiktokId created now v =
     \<lparr>t_id = tiktokId,
      t_username = sanitize (author v),
      t_url = sanitize (video_url v),
      t_thumbnail = sanitize (thumbnail_url v),
      t_created_at = created,
      t_fetched_at = now,
      t_views = formatViews (case views v of
                               None \<Rightarrow> ''0''
                             | Some s \<Rightarrow> if s = [] then ''0'' else s),
      t_comments = (case video_comments v of None \<Rightarrow> 0 | Some c \<Rightarrow> count c)\<rparr>"

text \<open>One turn of the loop of \<^verbatim>\<open>storeVideos\<close>.\<close>

definition storeVideo :: "supabase \<Rightarrow> int \<Rightarrow> video \<Rightarrow> db \<Rightarrow> db" where
  "storeVideo sb now v d =
     (case getTiktokId (video_url v) of
        None \<Rightarrow> d
      | Some tiktokId \<Rightarrow>
          (case created_at v now of
             None \<Rightarrow> d
           | Some created \<Rightarrow>
               if \<not> accepts_upsert sb (tiktokRecord tiktokId created now v) then d
               else
                 (let d1 = d\<lparr>tiktoks := upsert (tiktokRecord tiktokId created now v) (tiktoks d)\<rparr>
                  in case video_comments v of
                       None \<Rightarrow> d1
                     | Some c \<Rightarrow>
                         (case tickers c of
                            None \<Rightarrow> d1
                          | Some entries \<Rightarrow> storeTokenMentions sb now tiktokId (Some c) d1))))"

fun storeVideos :: "supabase \<Rightarrow> int \<Rightarrow> video list \<Rightarrow> db \<Rightarrow> db" where
  "storeVideos sb now [] d = d"
| "storeVideos sb now (v # vs) d = storeVideos sb now vs (storeVideo sb now v d)"

subsection \<open>processSearchTerm, processHashtagTerm, execute\<close>

text \<open>
  The browser is outside the repository. An element of a result page is what
  \<^verbatim>\<open>VideoScraper.extractVideoData\<close> makes of it (an object, \<^verbatim>\<open>null\<close>, or an
  error thrown) and what \<^verbatim>\<open>extractComments\<close> returns for its post. One turn of the
  \<^verbatim>\<open>while\<close> loop sees either the elements that \<^verbatim>\<open>page.$$\<close> returns or an error
  thrown by the page (by \<^verbatim>\<open>page.$$\<close>, or by the scroll that ends the turn before).
  Opening a URL either throws or gives the turns that follow, as far as they are known.
\<close>

record element =
  extractVideoData :: "video option outcome"
  extractComments :: "comments option outcome"

datatype turn = Elements "element list" | PageError string

text \<open>
  \<open>launch\<close> and \<open>newPage\<close> say whether \<^verbatim>\<open>puppeteer.launch\<close> and
  \<^verbatim>\<open>browser.newPage\<close> throw (\<open>Some m\<close>) or not; \<open>close\<close> is the
  \<^verbatim>\<open>browser.close()\<close> that ends the \<^verbatim>\<open>try\<close> block and \<open>close_in_catch\<close> the one
  that the \<^verbatim>\<open>catch\<close> block calls.
\<close>

record browser =
  launch :: "string option"
  newPage :: "string option"
  goto :: "string \<Rightarrow> turn list outcome"
  close :: "string option"
  close_in_catch :: "string option"

text \<open>
  The \<^verbatim>\<open>for\<close> loop over the elements of one page. It returns the results and the set
  of processed URLs, both as the loop leaves them, and the message of an error when one
  was thrown.
\<close>

fun scan_elements ::
  "nat \<Rightarrow> element list \<Rightarrow> video list \<Rightarrow> string set \<Rightarrow> video list \<times> string set \<times> string option"
where
  "scan_elements maxResults [] res processedUrls = (res, processedUrls, None)"
| "scan_elements maxResults (el # els) res processedUrls =
     (if maxResults \<le> length res then (res, processedUrls, None)
      else
        (case extractVideoData el of
           Throws m \<Rightarrow> (res, processedUrls, Some m)
         | Returns None \<Rightarrow> scan_elements maxResults els res processedUrls
         | Returns (Some videoData) \<Rightarrow>
             if video_url videoData \<noteq> [] \<and> video_url videoData \<notin> processedUrls then
               (case extractComments el of
                  Throws m \<Rightarrow> (res, processedUrls, Some m)
                | Returns c \<Rightarrow>
                    scan_elements maxResults els
                      (res @ [videoData\<lparr>video_comments := c\<rparr>])
                      (insert (video_url videoData) processedUrls))
             else scan_elements maxResults els res processedUrls))"

text \<open>
  The \<^verbatim>\<open>while\<close> loop. A thrown error ends it through the \<^verbatim>\<open>catch\<close>, which
  returns the results so far. The loop has no other exit than the limit: when the known
  turns are used up and the limit is not reached, the call has not returned (\<open>None\<close>).
\<close>

fun scroll_loop ::
  "nat \<Rightarrow> turn list \<Rightarrow> video list \<Rightarrow> string set \<Rightarrow> (video list \<times> string set) option"
where
  "scroll_loop maxResults [] res processedUrls =
     (if length res < maxResults then None else Some (res, processedUrls))"
| "scroll_loop maxResults (tn # turns) res processedUrls =
     (if \<not> length res < maxResults then Some (res, processedUrls)
      else
        (case tn of
           PageError m \<Rightarrow> Some (res, processedUrls)
         | Elements videoElements \<Rightarrow>
             if videoElements = [] then scroll_loop maxResults turns res processedUrls
             else
               (case scan_elements maxResults videoElements res processedUrls of
                  (res', processedUrls', Some m) \<Rightarrow> Some (res', processedUrls')
                | (res', processedUrls', None) \<Rightarrow>
                    if maxResults \<le> length res' then Some (res', processedUrls')
                    else scroll_loop maxResults turns res' processedUrls')))"

definition processSearchTerm ::
  "browser \<Rightarrow> string \<Rightarrow> nat \<Rightarrow> string set \<Rightarrow> (video list \<times> string set) option" where
  "processSearchTerm page keyword maxResults processedUrls =
     (case goto page (''https://www.tiktok.com/search?q='' @ keyword) of
        Throws m \<Rightarrow> Some ([], processedUrls)
      | Returns turns \<Rightarrow> scroll_loop maxResults turns [] processedUrls)"

definition processHashtagTerm ::
  "browser \<Rightarrow> string \<Rightarrow> nat \<Rightarrow> string set \<Rightarrow> (video list \<times> string set) option" where
  "processHashtagTerm page keyword maxResults processedUrls =
     (case goto page (''https://www.tiktok.com/tag/'' @ keyword) of
        Throws m \<Rightarrow> Some ([], processedUrls)
      | Returns turns \<Rightarrow> scroll_loop maxResults turns [] processedUrls)"

definition searchTerms :: "string list" where
  "searchTerms = [''memecoin'', ''pumpfun'', ''solana'', ''crypto'', ''meme'', ''bags'', ''bonk'']"

definition hashtagTerms :: "string list" where
  "hashtagTerms = [''memecoin'', ''solana'', ''crypto'', ''pumpfun'', ''meme'', ''bags'', ''bonk'']"

text \<open>
  The variables of \<^verbatim>\<open>execute\<close>, the store, and the videos handed to
  \<^verbatim>\<open>storeVideos\<close> so far, batch after batch: the records the invocation has emitted.
\<close>

record scrape =
  processedUrls :: "string set"
  totalVideos :: nat
  store :: db
  emitted :: "video list"

text \<open>
  The \<^verbatim>\<open>for\<close> statement over a list of terms; \<open>process\<close> is
  \<^verbatim>\<open>processSearchTerm\<close> or \<^verbatim>\<open>processHashtagTerm\<close> with its limit. The flag says
  whether the loop came to its end; it is \<open>False\<close> when a term's call has not returned.
\<close>

fun scrape_terms ::
  "(string \<Rightarrow> string set \<Rightarrow> (video list \<times> string set) option) \<Rightarrow> supabase \<Rightarrow> int \<Rightarrow>
   string list \<Rightarrow> scrape \<Rightarrow> scrape \<times> bool"
where
  "scrape_terms process sb now [] st = (st, True)"
| "scrape_terms process sb now (keyword # terms) st =
     (case process keyword (processedUrls st) of
        None \<Rightarrow> (st, False)
      | Some (videos, processedUrls') \<Rightarrow>
          scrape_terms process sb now terms
            (st\<lparr>processedUrls := processedUrls',
                totalVideos := totalVideos st + length videos,
                store := storeVideos sb now videos (store st),
                emitted := emitted st @ videos\<rparr>))"

datatype execute_result = Success nat | Failure string

text \<open>
  The \<^verbatim>\<open>catch\<close> block of \<^verbatim>\<open>execute\<close>, entered with the browser launched: it
  closes the browser, outside any \<^verbatim>\<open>try\<close>, and returns the failure object. When that
  \<^verbatim>\<open>close\<close> throws, \<^verbatim>\<open>execute\<close> throws.
\<close>

definition execute_catch :: "browser \<Rightarrow> string \<Rightarrow> execute_result outcome" where
  "execute_catch b m =
     (case close_in_catch b of
        Some m' \<Rightarrow> Throws m'
      | None \<Rightarrow> Returns (Failure m))"

text \<open>
  \<open>execute\<close> returns what its caller gets (the result object, or an error thrown), or
  \<open>None\<close> when the call has not returned, and the variables as the call left them.
  When \<^verbatim>\<open>puppeteer.launch\<close> throws, \<^verbatim>\<open>this.browser\<close> is still
  \<^verbatim>\<open>null\<close> and the \<^verbatim>\<open>catch\<close> block closes nothing.
\<close>

definition execute ::
  "browser \<Rightarrow> supabase \<Rightarrow> int \<Rightarrow> db \<Rightarrow> execute_result outcome option \<times> scrape" where
  "execute b sb now d =
     (let st0 = \<lparr>processedUrls = {}, totalVideos = 0, store = d, emitted = []\<rparr>
      in case launch b of
           Some m \<Rightarrow> (Some (Returns (Failure m)), st0)
         | None \<Rightarrow>
             (case newPage b of
                Some m \<Rightarrow> (Some (execute_catch b m), st0)
              | None \<Rightarrow>
                  (case scrape_terms (\<lambda>keyword. processSearchTerm b keyword 100) sb now
                          searchTerms st0 of
                     (st1, False) \<Rightarrow> (None, st1)
                   | (st1, True) \<Rightarrow>
                       (case scrape_terms (\<lambda>keyword. processHashtagTerm b keyword 200) sb now
                               hashtagTerms st1 of
                          (st2, False) \<Rightarrow> (None, st2)
                        | (st2, True) \<Rightarrow>
                            (case close b of
                               Some m \<Rightarrow> (Some (execute_catch b m), st2)
                             | None \<Rightarrow> (Some (Returns (Success (totalVideos st2))), st2))))))"

subsection \<open>Observing a run\<close>

text \<open>
  The call a step makes, whether a step's agent throws in a given environment, and the
  agents that a logged sequence of calls ran one by one.
\<close>

definition step_call :: "step \<Rightarrow> call" where
  "step_call st = (case st of (key, a, inp) \<Rightarrow> AgentRun a inp)"

definition step_throws :: "'r adk \<Rightarrow> step \<Rightarrow> bool" where
  "step_throws env st =
     (case st of (key, a, inp) \<Rightarrow>
        (case agent_run env a inp of Throws m \<Rightarrow> True | Returns r \<Rightarrow> False))"

fun agents_attempted :: "call list \<Rightarrow> agent list" where
  "agents_attempted [] = []"
| "agents_attempted (AgentRun a inp # cs) = a # agents_attempted cs"
| "agents_attempted (c # cs) = agents_attempted cs"

definition tool_step_call :: "tool_step \<Rightarrow> call" where
  "tool_step_call st = (case st of (key, t, inp) \<Rightarrow> ToolExecute t inp)"

subsection \<open>Observing the scraper and the store\<close>

text \<open>
  \<open>fresh_urls seen vs\<close>: the videos \<open>vs\<close> have pairwise different URLs, none of them
  in \<open>seen\<close>. \<open>seen_covers st\<close>: the videos emitted so far have pairwise different
  URLs, all of them in the set of processed URLs.
\<close>

definition fresh_urls :: "string set \<Rightarrow> video list \<Rightarrow> bool" where
  "fresh_urls seen vs = (distinct (map video_url vs) \<and> set (map video_url vs) \<inter> seen = {})"

definition seen_covers :: "scrape \<Rightarrow> bool" where
  "seen_covers st = (distinct (map video_url (emitted st))
                     \<and> set (map video_url (emitted st)) \<subseteq> processedUrls st)"

text \<open>
  The ids of the rows of \<^verbatim>\<open>tiktoks\<close>; the id under which \<^verbatim>\<open>storeVideos\<close>
  writes a video, for a video that has one and whose creation date is valid; the ids of
  the tokens that carry a symbol.
\<close>

definition ids :: "db \<Rightarrow> string list" where
  "ids d = map t_id (tiktoks d)"

definition storable :: "video \<Rightarrow> string option" where
  "storable v =
     (case getTiktokId (video_url v) of
        None \<Rightarrow> None
      | Some i \<Rightarrow> (case created_at v 0 of None \<Rightarrow> None | Some c \<Rightarrow> Some i))"

definition ids_of :: "string \<Rightarrow> token list \<Rightarrow> int list" where
  "ids_of smb toks = map k_id (filter (\<lambda>tok. k_symbol tok = smb) toks)"

subsection \<open>Numerals, as the claim about formatViews reads them\<close>





subsection \<open>Concrete environments and orchestrators\<close>

text \<open>
  \<open>fallback_env\<close>: the framework cannot build a workflow and every agent returns.
  \<open>telegram_fails_env\<close> and \<open>market_fails_env\<close>: as before, but one agent throws.
  \<open>adk_env\<close>: the framework builds and runs workflows. \<open>fresh\<close> is an orchestrator
  as its constructor leaves it, \<open>started\<close> one whose \<^verbatim>\<open>isRunning\<close> is set.
\<close>

definition fallback_env :: "string adk" where
  "fallback_env =
     \<lparr>build = (\<lambda>name agents. Some ''ADK unavailable''),
      workflow_run = (\<lambda>w inp. Throws ''no workflow''),
      agent_run = (\<lambda>a inp. Returns ''done''),
      tool_execute = (\<lambda>t inp. Returns ''done''),
      clock = ''2025-01-01T00:00:00.000Z'',
      node_env = ''''\<rparr>"

definition telegram_fails_env :: "string adk" where
  "telegram_fails_env =
     fallback_env\<lparr>agent_run :=
       (\<lambda>a inp. if a = telegramScraper then Throws ''telegram down'' else Returns ''done''),
       tool_execute :=
       (\<lambda>t inp. if t = TelegramScrapingTool then Throws ''telegram down'' else Returns ''done'')\<rparr>"

definition adk_env :: "string adk" where
  "adk_env = fallback_env\<lparr>build := (\<lambda>name agents. None),
                workflow_run := (\<lambda>w inp. Returns ''workflow done'')\<rparr>"

definition fresh :: orchestrator where
  "fresh = \<lparr>workflow = None, isRunning = False, sessionId = ''iris_session_0''\<rparr>"

definition market_fails_env :: "string adk" where
  "market_fails_env =
     fallback_env\<lparr>agent_run :=
       (\<lambda>a inp. if a = marketDataFetcher then Throws ''market data down'' else Returns ''done'')\<rparr>"

definition started :: orchestrator where
  "started = \<lparr>workflow = None, isRunning = True, sessionId = ''iris_session_0''\<rparr>"

subsection \<open>Concrete stores, videos and pages\<close>

text \<open>
  \<open>ok_store\<close> accepts every request. \<open>bonk_db\<close> knows two tokens; \<open>seeded_db\<close> has in
  addition a row for the TikTok with id 123. \<open>bonk_video\<close> is that TikTok, scraped
  again, with comments that mention one known and one unknown symbol.
  \<open>overlap_browser\<close> shows two search pages that share a video and a hashtag page that
  shows one of them again.
\<close>

definition ok_store :: supabase where
  "ok_store = \<lparr>accepts_upsert = (\<lambda>r. True), select_ok = True, accepts_insert = (\<lambda>rows. True)\<rparr>"

definition bonk_db :: db where
  "bonk_db =
     \<lparr>tiktoks = [], mentions = [],
      tokens = [\<lparr>k_id = 1, k_symbol = ''BONK''\<rparr>, \<lparr>k_id = 2, k_symbol = ''WIF''\<rparr>]\<rparr>"

definition bonk_comments :: comments where
  "bonk_comments = \<lparr>count = 5, tickers = Some [(''BONK'', 3), (''DOGE'', 1)]\<rparr>"

definition bonk_video :: video where
  "bonk_video =
     \<lparr>video_url = ''https://www.tiktok.com/@user/video/123'', author = ''user'',
      thumbnail_url = [], posted_timestamp = None, views = Some ''8.2M'',
      video_comments = Some bonk_comments\<rparr>"

definition seeded_db :: db where
  "seeded_db =
     bonk_db\<lparr>tiktoks :=
       [\<lparr>t_id = ''123'', t_username = ''user'', t_url = ''https://www.tiktok.com/@user/video/123'',
         t_thumbnail = [], t_created_at = 1, t_fetched_at = 1, t_views = Integer 5,
         t_comments = 0\<rparr>]\<rparr>"

definition plain_video :: "string \<Rightarrow> video" where
  "plain_video u =
     \<lparr>video_url = u, author = [], thumbnail_url = [], posted_timestamp = None, views = None,
      video_comments = None\<rparr>"

definition plain_element :: "string \<Rightarrow> element" where
  "plain_element u =
     \<lparr>extractVideoData = Returns (Some (plain_video u)), extractComments = Returns None\<rparr>"

definition overlap_browser :: browser where
  "overlap_browser =
     \<lparr>launch = None,
      newPage = None,
      goto = (\<lambda>url.
        if url = ''https://www.tiktok.com/search?q=memecoin'' then
          Returns [Elements [plain_element ''/@a/video/1'', plain_element ''/@a/video/2''],
                   Elements [plain_element ''/@a/video/2'', plain_element ''/@a/video/3''],
                   PageError ''timeout'']
        else if url = ''https://www.tiktok.com/tag/memecoin'' then
          Returns [Elements [plain_element ''/@a/video/3'', plain_element ''/@a/video/4''],
                   PageError ''timeout'']
        else Throws ''navigation failed''),
      close = None,
      close_in_catch = None\<rparr>"

section \<open>Properties of the orchestrator\<close>

subsection \<open>What a sequence of steps calls\<close>

lemma step_throws_simp:
  "step_throws env (key, a, inp) = (\<exists>m. agent_run env a inp = Throws m)"
  by (cases "agent_run env a inp") (simp_all add: step_throws_def)

lemma run_steps_calls:
  "snd (snd (run_steps env steps res)) =
     map step_call (take (Suc (length (takeWhile (\<lambda>st. \<not> step_throws env st) steps))) steps)"
proof (induction steps arbitrary: res)
  case Nil
  show ?case by simp
next
  case (Cons st steps)
  obtain key a inp where st: "st = (key, a, inp)" by (cases st)
  show ?case
  proof (cases "agent_run env a inp")
    case (Returns r)
    obtain res' e calls where rs: "run_steps env steps (res @ [(key, r)]) = (res', e, calls)"
      by (cases "run_steps env steps (res @ [(key, r)])")
    from Cons[of "res @ [(key, r)]"] rs
    have "calls = map step_call
        (take (Suc (length (takeWhile (\<lambda>st. \<not> step_throws env st) steps))) steps)"
      by simp
    with Returns st rs show ?thesis
      by (simp add: step_throws_simp step_call_def)
  next
    case (Throws m)
    with st show ?thesis by (simp add: step_throws_simp step_call_def)
  qed
qed

lemma run_steps_error:
  "fst (snd (run_steps env steps res)) = None \<longleftrightarrow> (\<forall>st \<in> set steps. \<not> step_throws env st)"
proof (induction steps arbitrary: res)
  case Nil
  show ?case by simp
next
  case (Cons st steps)
  obtain key a inp where st: "st = (key, a, inp)" by (cases st)
  show ?case
  proof (cases "agent_run env a inp")
    case (Returns r)
    obtain res' e calls where rs: "run_steps env steps (res @ [(key, r)]) = (res', e, calls)"
      by (cases "run_steps env steps (res @ [(key, r)])")
    from Cons[of "res @ [(key, r)]"] rs
    have "e = None \<longleftrightarrow> (\<forall>st \<in> set steps. \<not> step_throws env st)"
      by simp
    with Returns st rs show ?thesis
      by (simp add: step_throws_simp)
  next
    case (Throws m)
    with st show ?thesis by (simp add: step_throws_simp)
  qed
qed

lemma run_steps_all:
  assumes "\<forall>st \<in> set steps. \<not> step_throws env st"
  shows "snd (snd (run_steps env steps res)) = map step_call steps"
proof -
  from assms have "takeWhile (\<lambda>st. \<not> step_throws env st) steps = steps"
    by (simp add: takeWhile_eq_all_conv)
  then have "take (Suc (length (takeWhile (\<lambda>st. \<not> step_throws env st) steps))) steps = steps"
    by (metis le_SucI order_refl take_all)
  then show ?thesis unfolding run_steps_calls by (rule arg_cong)
qed

lemma agents_attempted_manual: "agents_attempted (map step_call manual_steps) = pipeline_agents"
  by (simp add: manual_steps_def step_call_def pipeline_agents_def)

lemma snd_runManualWorkflow:
  "snd (runManualWorkflow env) = snd (snd (run_steps env manual_steps []))"
  by (simp add: runManualWorkflow_def split: prod.splits option.splits)

lemma mode_runManualWorkflow: "mode (fst (runManualWorkflow env)) = ''manual''"
  by (simp add: runManualWorkflow_def split: prod.splits option.splits)

lemma start_manual:
  assumes "\<not> isRunning s" and "workflow s = None"
    and "build env ''iris_memecoin_pipeline'' pipeline_agents = Some m"
  shows "start env s =
           (Returns (Report (fst (runManualWorkflow env))),
            s\<lparr>workflow := None, isRunning := True\<rparr>,
            Build ''iris_memecoin_pipeline'' pipeline_agents # snd (runManualWorkflow env))"
  using assms by (simp add: start_def createWorkflow_def split: prod.splits)

lemma calls_runManualWorkflow:
  "snd (runManualWorkflow env) =
     map step_call
       (take (Suc (length (takeWhile (\<lambda>st. \<not> step_throws env st) manual_steps)))
          manual_steps)"
  unfolding snd_runManualWorkflow by (rule run_steps_calls)

subsection \<open>Fallback to the manual strategy\<close>

text \<open>
  Claim C1. When \<^verbatim>\<open>start\<close> is called on an orchestrator that is not running and
  has no workflow, and building the ADK workflow throws, the same call of
  \<^verbatim>\<open>start\<close> returns normally with the report of \<^verbatim>\<open>runManualWorkflow\<close>: the
  calls made are the one failed build followed by the manual strategy's agent calls
  (the steps of the manual sequence up to and including the first one that throws, all
  seven when none does), and the report's \<^verbatim>\<open>mode\<close> is \<^verbatim>\<open>'manual'\<close>.
\<close>

theorem start_falls_back_to_manual:
  assumes "\<not> isRunning s" and "workflow s = None"
    and "build env ''iris_memecoin_pipeline'' pipeline_agents = Some m"
  shows "start env s =
           (Returns (Report (fst (runManualWorkflow env))),
            s\<lparr>workflow := None, isRunning := True\<rparr>,
            Build ''iris_memecoin_pipeline'' pipeline_agents # snd (runManualWorkflow env))
         \<and> mode (fst (runManualWorkflow env)) = ''manual''
         \<and> snd (runManualWorkflow env) =
             map step_call
               (take (Suc (length (takeWhile (\<lambda>st. \<not> step_throws env st) manual_steps)))
                  manual_steps)"
proof (intro conjI)
  show "start env s =
           (Returns (Report (fst (runManualWorkflow env))),
            s\<lparr>workflow := None, isRunning := True\<rparr>,
            Build ''iris_memecoin_pipeline'' pipeline_agents # snd (runManualWorkflow env))"
    using assms by (rule start_manual)
  show "mode (fst (runManualWorkflow env)) = ''manual''"
    by (rule mode_runManualWorkflow)
  show "snd (runManualWorkflow env) =
             map step_call
               (take (Suc (length (takeWhile (\<lambda>st. \<not> step_throws env st) manual_steps)))
                  manual_steps)"
    by (rule calls_runManualWorkflow)
qed

theorem start_falls_back_to_manual_witness:
  "start fallback_env fresh =
     (Returns (Report (fst (runManualWorkflow fallback_env))),
      fresh\<lparr>workflow := None, isRunning := True\<rparr>,
      Build ''iris_memecoin_pipeline'' pipeline_agents # snd (runManualWorkflow fallback_env))
   \<and> agents_attempted (snd (runManualWorkflow fallback_env)) = pipeline_agents"
  using start_falls_back_to_manual [of fresh fallback_env "''ADK unavailable''"]
  by (simp add: fresh_def fallback_env_def manual_steps_def pipeline_agents_def
      step_throws_def step_call_def)

subsection \<open>A stage that throws\<close>

text \<open>
  Claim C2. The claim says that a stage that throws does not keep the later stages from
  running. \<^verbatim>\<open>runManualWorkflow\<close> has one \<^verbatim>\<open>try\<close> around all seven steps: when
  the Telegram agent throws, the report has \<^verbatim>\<open>success: false\<close>, the error's message
  and the two results assigned before, and the Outlight, pattern-analysis, Twitter and
  dashboard agents are never run.
\<close>

theorem runManualWorkflow_stops_at_throwing_stage:
  "runManualWorkflow telegram_fails_env =
     (\<lparr>success = False, mode = ''manual'', error = Some ''telegram down'',
       results = [(''marketData'', ''done''), (''tiktokScraping'', ''done'')],
       timestamp = ''2025-01-01T00:00:00.000Z''\<rparr>,
      [AgentRun marketDataFetcher [(''mode'', Str ''full_collection'')],
       AgentRun tiktokScraper [(''mode'', Str ''full_scraping''), (''maxVideos'', Num 100)],
       AgentRun telegramScraper [(''mode'', Str ''full_scraping''), (''maxChannels'', Num 10)]])"
  by (simp add: runManualWorkflow_def manual_steps_def telegram_fails_env_def fallback_env_def)

text \<open>
  The variant \<^verbatim>\<open>runAgentsIndividually\<close> does what the claim says: whatever throws,
  it executes all seven tools in order and stores an entry under every key.
\<close>

lemma run_tool_steps_calls:
  "snd (run_tool_steps env steps res) = map tool_step_call steps"
proof (induction steps arbitrary: res)
  case Nil
  show ?case by simp
next
  case (Cons st steps)
  obtain key t inp where st: "st = (key, t, inp)" by (cases st)
  show ?case using Cons st
    by (simp add: tool_step_call_def case_prod_beta)
qed

lemma run_tool_steps_keys:
  "map fst (fst (run_tool_steps env steps res)) = map fst res @ map fst steps"
proof (induction steps arbitrary: res)
  case Nil
  show ?case by simp
next
  case (Cons st steps)
  obtain key t inp where st: "st = (key, t, inp)" by (cases st)
  show ?case using Cons[of "res @ [(key, case tool_execute env t inp of
                             Returns r \<Rightarrow> ToolResult r
                           | Throws m \<Rightarrow> CaughtError m)]"] st
    by (simp add: case_prod_beta)
qed

lemma runAgentsIndividually_attempts_every_stage:
  "snd (snd (runAgentsIndividually env s)) = map tool_step_call individual_steps
   \<and> map fst (results (fst (runAgentsIndividually env s))) = map fst individual_steps"
  using run_tool_steps_calls[of env individual_steps "[]"]
        run_tool_steps_keys[of env individual_steps "[]"]
  by (simp add: runAgentsIndividually_def case_prod_beta)

lemma runAgentsIndividually_telegram_fails:
  "results (fst (runAgentsIndividually telegram_fails_env fresh)) =
     [(''marketData'', ToolResult ''done''), (''tiktok'', ToolResult ''done''),
      (''telegram'', CaughtError ''telegram down''), (''outlight'', ToolResult ''done''),
      (''patternAnalysis'', ToolResult ''done''), (''twitter'', ToolResult ''done''),
      (''dashboard'', ToolResult ''done'')]"
  by (simp add: runAgentsIndividually_def individual_steps_def telegram_fails_env_def
      fallback_env_def)

subsection \<open>start on a running orchestrator\<close>

text \<open>
  Claim C4, as stated, fails: a \<^verbatim>\<open>start\<close> on an orchestrator whose
  \<^verbatim>\<open>isRunning\<close> is set does not return the status object of
  \<^verbatim>\<open>getStatus\<close>.
\<close>

theorem start_while_running_counterexample:
  "fst (start fallback_env started) \<noteq> Returns (StatusObject (getStatus fallback_env started))"
  by (simp add: start_def started_def)

text \<open>
  Claim C4, amended. A \<^verbatim>\<open>start\<close> on an orchestrator whose \<^verbatim>\<open>isRunning\<close> is
  set returns nothing (\<^verbatim>\<open>undefined\<close>), makes no call, and leaves the orchestrator
  (\<^verbatim>\<open>isRunning\<close>, \<^verbatim>\<open>workflow\<close>, \<^verbatim>\<open>sessionId\<close>) as it was.
\<close>

theorem start_while_running_is_noop:
  "isRunning s \<Longrightarrow> start env s = (Returns Undefined, s, [])"
  by (simp add: start_def)

theorem start_while_running_is_noop_witness:
  "isRunning started \<and> start fallback_env started = (Returns Undefined, started, [])"
  using start_while_running_is_noop [of started fallback_env]
  by (simp add: started_def)

subsection \<open>The order of the stages\<close>

text \<open>
  Claim C9. The claim says that every full run attempts the seven stages in the fixed
  order. A full run under the manual strategy whose market-data agent throws runs that
  agent and no other: the single \<^verbatim>\<open>try\<close> of \<^verbatim>\<open>runManualWorkflow\<close> ends the run
  at the first stage that throws (the behaviour recorded under claim C2).
\<close>

theorem full_run_stops_at_first_throw:
  "agents_attempted (snd (snd (start market_fails_env fresh))) = [marketDataFetcher]"
  by (simp add: start_def createWorkflow_def runManualWorkflow_def manual_steps_def
      market_fails_env_def fallback_env_def fresh_def)

lemma agents_attempted_periodic:
  "agents_attempted (map step_call periodic_steps) = periodic_agents"
  by (simp add: periodic_steps_def step_call_def periodic_agents_def)

lemma periodic_manual_calls:
  "snd (periodic_manual env) = snd (snd (run_steps env periodic_steps []))"
  by (simp add: periodic_manual_def split: prod.splits option.splits)

lemma periodic_manual_all:
  assumes "\<forall>st \<in> set periodic_steps. \<not> step_throws env st"
  shows "agents_attempted (snd (periodic_manual env)) = periodic_agents"
  using run_steps_all[OF assms, of "[]"]
  by (simp add: periodic_manual_calls agents_attempted_periodic)

lemma manual_all:
  assumes "\<forall>st \<in> set manual_steps. \<not> step_throws env st"
  shows "agents_attempted (snd (runManualWorkflow env)) = pipeline_agents"
  using run_steps_all[OF assms, of "[]"]
  by (simp add: snd_runManualWorkflow agents_attempted_manual)

text \<open>
  What does hold of the order. The agents that a manual run attempts are always the
  first ones of the fixed order, at least one of them, and all of them when no agent
  throws; the same holds of the manual part of a periodic run.
\<close>

lemma agents_attempted_step_calls:
  "agents_attempted (map step_call steps) = map (\<lambda>st. fst (snd st)) steps"
  by (induction steps) (auto simp: step_call_def)

lemma manual_run_attempts_prefix:
  "prefix (agents_attempted (snd (runManualWorkflow env))) pipeline_agents
   \<and> agents_attempted (snd (runManualWorkflow env)) \<noteq> []"
proof -
  let ?n = "Suc (length (takeWhile (\<lambda>st. \<not> step_throws env st) manual_steps))"
  have "map (\<lambda>st. fst (snd st)) manual_steps = pipeline_agents"
    by (simp add: manual_steps_def pipeline_agents_def)
  then have "take ?n (map (\<lambda>st. fst (snd st)) manual_steps) = take ?n pipeline_agents"
    by (rule arg_cong)
  then have "agents_attempted (snd (runManualWorkflow env)) = take ?n pipeline_agents"
    unfolding calls_runManualWorkflow agents_attempted_step_calls take_map .
  then show ?thesis by (simp add: take_is_prefix pipeline_agents_def)
qed

lemma periodic_manual_attempts_prefix:
  "prefix (agents_attempted (snd (periodic_manual env))) periodic_agents
   \<and> agents_attempted (snd (periodic_manual env)) \<noteq> []"
proof -
  let ?n = "Suc (length (takeWhile (\<lambda>st. \<not> step_throws env st) periodic_steps))"
  have "map (\<lambda>st. fst (snd st)) periodic_steps = periodic_agents"
    by (simp add: periodic_steps_def periodic_agents_def)
  then have "take ?n (map (\<lambda>st. fst (snd st)) periodic_steps) = take ?n periodic_agents"
    by (rule arg_cong)
  then have "agents_attempted (snd (periodic_manual env)) = take ?n periodic_agents"
    unfolding periodic_manual_calls run_steps_calls agents_attempted_step_calls take_map .
  then show ?thesis by (simp add: take_is_prefix periodic_agents_def)
qed

text \<open>
  A full run under the ADK strategy hands the framework the seven agents in the fixed
  order, and a full run under the manual strategy in which no agent throws runs the
  seven agents in exactly that order. A periodic run that passes the \<^verbatim>\<open>isRunning\<close>
  guard hands the framework Outlight, pattern analysis, Twitter alerts, dashboard in that
  order; when the framework fails (at the build or at the run) and no agent throws, the
  manual part runs exactly these four in that order.
\<close>

lemma stage_order:
  "(\<not> isRunning s \<and> workflow s = None
      \<and> build env ''iris_memecoin_pipeline'' pipeline_agents = None \<longrightarrow>
      snd (snd (start env s)) =
        [Build ''iris_memecoin_pipeline''
           [marketDataFetcher, tiktokScraper, telegramScraper, outlightScraper,
            patternAnalyzer, twitterAlerts, dashboardUpdater],
         WorkflowRun (Workflow ''iris_memecoin_pipeline''
           [marketDataFetcher, tiktokScraper, telegramScraper, outlightScraper,
            patternAnalyzer, twitterAlerts, dashboardUpdater])
           (start_input env s)])
   \<and> (\<not> isRunning s \<and> workflow s = None
      \<and> build env ''iris_memecoin_pipeline'' pipeline_agents \<noteq> None
      \<and> (\<forall>st \<in> set manual_steps. \<not> step_throws env st) \<longrightarrow>
      agents_attempted (snd (snd (start env s))) =
        [marketDataFetcher, tiktokScraper, telegramScraper, outlightScraper,
         patternAnalyzer, twitterAlerts, dashboardUpdater])
   \<and> (isRunning s \<and> build env ''periodic_analysis'' periodic_agents = None
      \<and> workflow_run env (Workflow ''periodic_analysis'' periodic_agents) (periodic_input env)
          = Returns r \<longrightarrow>
      snd (runPeriodicAnalysis env s) =
        [Build ''periodic_analysis''
           [outlightScraper, patternAnalyzer, twitterAlerts, dashboardUpdater],
         WorkflowRun (Workflow ''periodic_analysis''
           [outlightScraper, patternAnalyzer, twitterAlerts, dashboardUpdater])
           (periodic_input env)])
   \<and> (isRunning s
      \<and> (build env ''periodic_analysis'' periodic_agents \<noteq> None
           \<or> (\<exists>m. workflow_run env (Workflow ''periodic_analysis'' periodic_agents)
                      (periodic_input env) = Throws m))
      \<and> (\<forall>st \<in> set periodic_steps. \<not> step_throws env st) \<longrightarrow>
      agents_attempted (snd (runPeriodicAnalysis env s)) =
        [outlightScraper, patternAnalyzer, twitterAlerts, dashboardUpdater])"
proof (intro conjI impI)
  assume "\<not> isRunning s \<and> workflow s = None
      \<and> build env ''iris_memecoin_pipeline'' pipeline_agents = None"
  then show "snd (snd (start env s)) =
        [Build ''iris_memecoin_pipeline''
           [marketDataFetcher, tiktokScraper, telegramScraper, outlightScraper,
            patternAnalyzer, twitterAlerts, dashboardUpdater],
         WorkflowRun (Workflow ''iris_memecoin_pipeline''
           [marketDataFetcher, tiktokScraper, telegramScraper, outlightScraper,
            patternAnalyzer, twitterAlerts, dashboardUpdater])
           (start_input env s)]"
    by (simp add: start_def createWorkflow_def start_input_def pipeline_agents_def
        split: outcome.splits)
next
  assume a: "\<not> isRunning s \<and> workflow s = None
      \<and> build env ''iris_memecoin_pipeline'' pipeline_agents \<noteq> None
      \<and> (\<forall>st \<in> set manual_steps. \<not> step_throws env st)"
  then obtain m where "build env ''iris_memecoin_pipeline'' pipeline_agents = Some m"
    by auto
  with a have "snd (snd (start env s)) =
      Build ''iris_memecoin_pipeline'' pipeline_agents # snd (runManualWorkflow env)"
    by (simp add: start_manual)
  with a manual_all[of env]
  show "agents_attempted (snd (snd (start env s))) =
        [marketDataFetcher, tiktokScraper, telegramScraper, outlightScraper,
         patternAnalyzer, twitterAlerts, dashboardUpdater]"
    by (simp add: pipeline_agents_def)
next
  assume "isRunning s \<and> build env ''periodic_analysis'' periodic_agents = None
      \<and> workflow_run env (Workflow ''periodic_analysis'' periodic_agents) (periodic_input env)
          = Returns r"
  then show "snd (runPeriodicAnalysis env s) =
        [Build ''periodic_analysis''
           [outlightScraper, patternAnalyzer, twitterAlerts, dashboardUpdater],
         WorkflowRun (Workflow ''periodic_analysis''
           [outlightScraper, patternAnalyzer, twitterAlerts, dashboardUpdater])
           (periodic_input env)]"
    by (simp add: runPeriodicAnalysis_def periodic_agents_def)
next
  assume a: "isRunning s
      \<and> (build env ''periodic_analysis'' periodic_agents \<noteq> None
           \<or> (\<exists>m. workflow_run env (Workflow ''periodic_analysis'' periodic_agents)
                      (periodic_input env) = Throws m))
      \<and> (\<forall>st \<in> set periodic_steps. \<not> step_throws env st)"
  then have "agents_attempted (snd (runPeriodicAnalysis env s)) =
      agents_attempted (snd (periodic_manual env))"
    by (auto simp: runPeriodicAnalysis_def case_prod_beta split: option.splits outcome.splits)
  with a periodic_manual_all[of env]
  show "agents_attempted (snd (runPeriodicAnalysis env s)) =
        [outlightScraper, patternAnalyzer, twitterAlerts, dashboardUpdater]"
    by (simp add: periodic_agents_def)
qed

lemma stage_order_examples:
  "snd (snd (start adk_env fresh)) =
        [Build ''iris_memecoin_pipeline''
           [marketDataFetcher, tiktokScraper, telegramScraper, outlightScraper,
            patternAnalyzer, twitterAlerts, dashboardUpdater],
         WorkflowRun (Workflow ''iris_memecoin_pipeline''
           [marketDataFetcher, tiktokScraper, telegramScraper, outlightScraper,
            patternAnalyzer, twitterAlerts, dashboardUpdater])
           (start_input adk_env fresh)]
   \<and> agents_attempted (snd (snd (start fallback_env fresh))) =
        [marketDataFetcher, tiktokScraper, telegramScraper, outlightScraper,
         patternAnalyzer, twitterAlerts, dashboardUpdater]
   \<and> snd (runPeriodicAnalysis adk_env started) =
        [Build ''periodic_analysis''
           [outlightScraper, patternAnalyzer, twitterAlerts, dashboardUpdater],
         WorkflowRun (Workflow ''periodic_analysis''
           [outlightScraper, patternAnalyzer, twitterAlerts, dashboardUpdater])
           (periodic_input adk_env)]
   \<and> agents_attempted (snd (runPeriodicAnalysis fallback_env started)) =
        [outlightScraper, patternAnalyzer, twitterAlerts, dashboardUpdater]"
  using stage_order [of fresh adk_env "''workflow done''"]
        stage_order [of fresh fallback_env "''workflow done''"]
        stage_order [of started adk_env "''workflow done''"]
        stage_order [of started fallback_env "''workflow done''"]
  by (simp add: fresh_def started_def adk_env_def fallback_env_def manual_steps_def
      periodic_steps_def step_throws_def)



subsection \<open>Periodic ticks\<close>

text \<open>
  Claim C3, as stated, fails: on an orchestrator whose \<^verbatim>\<open>isRunning\<close> is set, a
  tick begins a periodic run, and a second tick that arrives before that run has
  finished begins another one, so that two runs are in flight.
\<close>

theorem periodic_overlap_counterexample:
  "in_flight (tick fallback_env \<lparr>orch = started, in_flight = 0\<rparr>) = 1
   \<and> in_flight (tick fallback_env (tick fallback_env \<lparr>orch = started, in_flight = 0\<rparr>)) = 2"
  by (simp add: tick_def runPeriodicAnalysis_def started_def fallback_env_def
      case_prod_beta)

text \<open>
  Claim C3, amended. A periodic tick begins a run exactly when the orchestrator's
  \<^verbatim>\<open>isRunning\<close> flag is set. With the flag clear the tick is skipped:
  \<^verbatim>\<open>runPeriodicAnalysis\<close> makes no call and returns nothing. With the flag set the
  run starts with the build of the periodic workflow. No tick changes the orchestrator.
\<close>

theorem periodic_guard:
  "(\<not> isRunning s \<longrightarrow> runPeriodicAnalysis env s = (Undefined, []))
   \<and> (isRunning s \<longrightarrow>
        (\<exists>calls. snd (runPeriodicAnalysis env s) =
                   Build ''periodic_analysis'' periodic_agents # calls))
   \<and> (tick env i \<noteq> i \<longleftrightarrow> isRunning (orch i))
   \<and> orch (tick env i) = orch i"
proof -
  have started: "isRunning s' \<Longrightarrow>
      \<exists>calls. snd (runPeriodicAnalysis env s') =
                   Build ''periodic_analysis'' periodic_agents # calls" for s'
    by (simp add: runPeriodicAnalysis_def case_prod_beta split: option.splits outcome.splits)
  have skipped: "\<not> isRunning s' \<Longrightarrow> runPeriodicAnalysis env s' = (Undefined, [])" for s'
    by (simp add: runPeriodicAnalysis_def)
  have "tick env i \<noteq> i \<longleftrightarrow> isRunning (orch i)"
  proof (cases "isRunning (orch i)")
    case True
    from started[OF True] obtain calls where
      "snd (runPeriodicAnalysis env (orch i)) = Build ''periodic_analysis'' periodic_agents # calls"
      by blast
    then have "tick env i = i\<lparr>in_flight := Suc (in_flight i)\<rparr>"
      by (simp add: tick_def)
    then have "in_flight (tick env i) \<noteq> in_flight i" by simp
    then have "tick env i \<noteq> i" by auto
    with True show ?thesis by simp
  next
    case False
    with skipped[OF False] show ?thesis by (simp add: tick_def)
  qed
  moreover have "orch (tick env i) = orch i" by (simp add: tick_def)
  ultimately show ?thesis using started[of s] skipped[of s] by blast
qed

theorem periodic_guard_witness:
  "runPeriodicAnalysis fallback_env fresh = (Undefined, [])
   \<and> (\<exists>calls. snd (runPeriodicAnalysis fallback_env started) =
                   Build ''periodic_analysis'' periodic_agents # calls)
   \<and> tick fallback_env \<lparr>orch = started, in_flight = 0\<rparr> \<noteq> \<lparr>orch = started, in_flight = 0\<rparr>
   \<and> tick fallback_env \<lparr>orch = fresh, in_flight = 0\<rparr> = \<lparr>orch = fresh, in_flight = 0\<rparr>"
  using periodic_guard [of fresh fallback_env "\<lparr>orch = fresh, in_flight = 0\<rparr>"]
        periodic_guard [of started fallback_env "\<lparr>orch = started, in_flight = 0\<rparr>"]
  by (simp add: fresh_def started_def)

section \<open>Properties of the scraping tool\<close>

subsection \<open>No URL is emitted twice\<close>


lemma scan_elements_appends:
  "\<exists>new. fst (scan_elements n els res seen) = res @ new
        \<and> fst (snd (scan_elements n els res seen)) = seen \<union> set (map video_url new)
        \<and> fresh_urls seen new"
proof (induction els arbitrary: res seen)
  case Nil
  show ?case by (simp add: fresh_urls_def)
next
  case (Cons el els)
  show ?case
  proof (cases "n \<le> length res")
    case True
    then show ?thesis by (simp add: fresh_urls_def)
  next
    case full: False
    show ?thesis
    proof (cases "extractVideoData el")
      case (Throws m)
      with full show ?thesis by (simp add: fresh_urls_def)
    next
      case (Returns vd)
      show ?thesis
      proof (cases vd)
        case None
        with Returns full Cons[of res seen] show ?thesis by simp
      next
        case (Some v)
        show ?thesis
        proof (cases "video_url v \<noteq> [] \<and> video_url v \<notin> seen")
          case False
          with Some Returns full Cons[of res seen] show ?thesis by auto
        next
          case True
          show ?thesis
          proof (cases "extractComments el")
            case (Throws m)
            with True Some Returns full show ?thesis by (simp add: fresh_urls_def)
          next
            case c: (Returns c)
            let ?v = "v\<lparr>video_comments := c\<rparr>"
            from Cons[of "res @ [?v]" "insert (video_url v) seen"]
            obtain new where new:
              "fst (scan_elements n els (res @ [?v]) (insert (video_url v) seen)) = (res @ [?v]) @ new"
              "fst (snd (scan_elements n els (res @ [?v]) (insert (video_url v) seen)))
                 = insert (video_url v) seen \<union> set (map video_url new)"
              "fresh_urls (insert (video_url v) seen) new"
              by blast
            have eq: "scan_elements n (el # els) res seen =
                scan_elements n els (res @ [?v]) (insert (video_url v) seen)"
              using True Some Returns full c by simp
            have "fresh_urls seen (?v # new)"
              using new(3) True by (auto simp: fresh_urls_def)
            moreover have "fst (scan_elements n (el # els) res seen) = res @ (?v # new)"
              using eq new(1) by simp
            moreover have "fst (snd (scan_elements n (el # els) res seen))
                 = seen \<union> set (map video_url (?v # new))"
              using eq new(2) by simp
            ultimately show ?thesis by blast
          qed
        qed
      qed
    qed
  qed
qed

lemma fresh_urls_append:
  assumes "fresh_urls seen a" and "fresh_urls (seen \<union> set (map video_url a)) b"
  shows "fresh_urls seen (a @ b)"
  using assms by (auto simp: fresh_urls_def)

lemma scroll_loop_appends:
  "scroll_loop n turns res seen = Some (res', seen') \<Longrightarrow>
     \<exists>new. res' = res @ new \<and> seen' = seen \<union> set (map video_url new) \<and> fresh_urls seen new"
proof (induction turns arbitrary: res seen)
  case Nil
  then show ?case by (auto simp: fresh_urls_def split: if_splits)
next
  case (Cons tn turns)
  show ?case
  proof (cases "length res < n")
    case False
    with Cons.prems show ?thesis by (auto simp: fresh_urls_def)
  next
    case room: True
    show ?thesis
    proof (cases tn)
      case (PageError m)
      with room Cons.prems show ?thesis by (auto simp: fresh_urls_def)
    next
      case (Elements els)
      show ?thesis
      proof (cases "els = []")
        case True
        with Elements room Cons.prems have "scroll_loop n turns res seen = Some (res', seen')"
          by simp
        from Cons.IH[OF this] show ?thesis .
      next
        case False
        obtain r1 s1 e where sc: "scan_elements n els res seen = (r1, s1, e)"
          by (cases "scan_elements n els res seen")
        from scan_elements_appends[of n els res seen] sc
        obtain new1 where new1: "r1 = res @ new1" "s1 = seen \<union> set (map video_url new1)"
          "fresh_urls seen new1" by auto
        show ?thesis
        proof (cases "e = None \<and> \<not> n \<le> length r1")
          case True
          with False Elements room Cons.prems sc
          have "scroll_loop n turns r1 s1 = Some (res', seen')" by auto
          from Cons.IH[OF this] obtain new2 where new2: "res' = r1 @ new2"
            "seen' = s1 \<union> set (map video_url new2)" "fresh_urls s1 new2" by blast
          have "fresh_urls seen (new1 @ new2)"
            using new1(3) new2(3) unfolding new1(2) by (rule fresh_urls_append)
          moreover have "res' = res @ (new1 @ new2)" using new1(1) new2(1) by simp
          moreover have "seen' = seen \<union> set (map video_url (new1 @ new2))"
            using new1(2) new2(2) by auto
          ultimately show ?thesis by blast
        next
          case stop: False
          with False Elements room Cons.prems sc have "res' = r1 \<and> seen' = s1"
            by (cases e) (auto split: if_splits)
          with new1 show ?thesis by blast
        qed
      qed
    qed
  qed
qed

lemma processSearchTerm_fresh:
  assumes "processSearchTerm b kw n seen = Some (vs, seen')"
  shows "seen' = seen \<union> set (map video_url vs) \<and> fresh_urls seen vs"
proof (cases "goto b (''https://www.tiktok.com/search?q='' @ kw)")
  case (Throws m)
  with assms show ?thesis by (simp add: processSearchTerm_def fresh_urls_def)
next
  case (Returns turns)
  with assms have "scroll_loop n turns [] seen = Some (vs, seen')"
    by (simp add: processSearchTerm_def)
  from scroll_loop_appends[OF this] show ?thesis by simp
qed

lemma processHashtagTerm_fresh:
  assumes "processHashtagTerm b kw n seen = Some (vs, seen')"
  shows "seen' = seen \<union> set (map video_url vs) \<and> fresh_urls seen vs"
proof (cases "goto b (''https://www.tiktok.com/tag/'' @ kw)")
  case (Throws m)
  with assms show ?thesis by (simp add: processHashtagTerm_def fresh_urls_def)
next
  case (Returns turns)
  with assms have "scroll_loop n turns [] seen = Some (vs, seen')"
    by (simp add: processHashtagTerm_def)
  from scroll_loop_appends[OF this] show ?thesis by simp
qed


lemma scrape_terms_seen_covers:
  assumes "\<And>kw seen vs seen'. process kw seen = Some (vs, seen') \<Longrightarrow>
             seen' = seen \<union> set (map video_url vs) \<and> fresh_urls seen vs"
    and "seen_covers st"
  shows "seen_covers (fst (scrape_terms process sb now terms st))"
  using assms(2)
proof (induction terms arbitrary: st)
  case Nil
  then show ?case by simp
next
  case (Cons kw terms)
  show ?case
  proof (cases "process kw (processedUrls st)")
    case None
    with Cons.prems show ?thesis by simp
  next
    case (Some r)
    obtain vs seen' where r: "r = (vs, seen')" by (cases r)
    from assms(1)[of kw "processedUrls st" vs seen'] Some r
    have f: "seen' = processedUrls st \<union> set (map video_url vs)"
      "fresh_urls (processedUrls st) vs" by auto
    let ?st = "st\<lparr>processedUrls := seen', totalVideos := totalVideos st + length vs,
                store := storeVideos sb now vs (store st), emitted := emitted st @ vs\<rparr>"
    have "seen_covers ?st"
      using Cons.prems f by (auto simp: seen_covers_def fresh_urls_def)
    from Cons.IH[OF this] Some r show ?thesis by simp
  qed
qed

text \<open>
  Claim C6. In every invocation of \<^verbatim>\<open>execute\<close>, whatever the pages return and
  however their results overlap, the videos handed on (the batches returned by
  \<^verbatim>\<open>processSearchTerm\<close> and \<^verbatim>\<open>processHashtagTerm\<close>, over both phases) have
  pairwise different URLs: no URL is emitted twice.
\<close>

theorem execute_emits_each_url_once:
  "distinct (map video_url (emitted (snd (execute b sb now d))))"
proof -
  let ?st0 = "\<lparr>processedUrls = {}, totalVideos = 0, store = d, emitted = []\<rparr>"
  let ?search = "scrape_terms (\<lambda>keyword. processSearchTerm b keyword 100) sb now searchTerms ?st0"
  let ?tags = "scrape_terms (\<lambda>keyword. processHashtagTerm b keyword 200) sb now hashtagTerms
                 (fst ?search)"
  have c0: "seen_covers ?st0" by (simp add: seen_covers_def)
  have c1: "seen_covers (fst ?search)"
    by (rule scrape_terms_seen_covers[OF _ c0]) (rule processSearchTerm_fresh)
  have c2: "seen_covers (fst ?tags)"
    by (rule scrape_terms_seen_covers[OF _ c1]) (rule processHashtagTerm_fresh)
  have "snd (execute b sb now d) = ?st0 \<or> snd (execute b sb now d) = fst ?search
        \<or> snd (execute b sb now d) = fst ?tags"
    by (auto simp: execute_def Let_def split: option.splits prod.splits bool.splits)
  with c0 c1 c2 have "seen_covers (snd (execute b sb now d))" by auto
  then show ?thesis by (simp add: seen_covers_def)
qed

theorem execute_emits_each_url_once_witness:
  "distinct (map video_url (emitted (snd (execute overlap_browser ok_store 1000 bonk_db))))
   \<and> map video_url (emitted (snd (execute overlap_browser ok_store 1000 bonk_db)))
       = [''/@a/video/1'', ''/@a/video/2'', ''/@a/video/3'', ''/@a/video/4'']"
  using execute_emits_each_url_once [of overlap_browser ok_store 1000 bonk_db]
  by (simp add: execute_def overlap_browser_def searchTerms_def hashtagTerms_def
      processSearchTerm_def processHashtagTerm_def plain_element_def plain_video_def)

subsection \<open>Upsert of videos\<close>


lemma map_t_id_upsert:
  "map t_id (upsert r tbl) =
     (if t_id r \<in> set (map t_id tbl) then map t_id tbl else map t_id tbl @ [t_id r])"
proof -
  have "map t_id (map (\<lambda>x. if t_id x = t_id r then r else x) tbl) = map t_id tbl"
    by (induction tbl) auto
  then show ?thesis by (simp add: upsert_def)
qed

lemma length_upsert_present:
  "t_id r \<in> set (map t_id tbl) \<Longrightarrow> length (upsert r tbl) = length tbl"
  by (simp add: upsert_def)

lemma distinct_upsert:
  "distinct (map t_id tbl) \<Longrightarrow> distinct (map t_id (upsert r tbl))"
  by (simp add: map_t_id_upsert)

lemma image_t_id_upsert:
  "t_id ` set (upsert r tbl) = insert (t_id r) (t_id ` set tbl)"
proof -
  have "set (map t_id (upsert r tbl)) = insert (t_id r) (set (map t_id tbl))"
    unfolding map_t_id_upsert by auto
  then show ?thesis by simp
qed

lemma upsert_row:
  assumes "row \<in> set (upsert r tbl)" and "t_id row = t_id r"
  shows "row = r"
proof (cases "t_id r \<in> set (map t_id tbl)")
  case True
  with assms show ?thesis by (auto simp: upsert_def split: if_splits)
next
  case False
  have "row \<notin> set tbl"
  proof
    assume "row \<in> set tbl"
    then have "t_id row \<in> set (map t_id tbl)" by simp
    with assms(2) False show False by simp
  qed
  with assms(1) False show ?thesis by (simp add: upsert_def)
qed

lemma upsert_mem: "r \<in> set (upsert r tbl)"
  by (auto simp: upsert_def)

lemma tiktoks_storeTokenMentions [simp]:
  "tiktoks (storeTokenMentions sb now tid cs d) = tiktoks d"
  by (simp add: storeTokenMentions_def Let_def split: option.splits)

lemma t_id_tiktokRecord [simp]: "t_id (tiktokRecord i c now v) = i"
  by (simp add: tiktokRecord_def)



lemma created_at_None_iff: "created_at v now = None \<longleftrightarrow> created_at v 0 = None"
  by (simp add: created_at_def split: option.splits)

lemma tiktoks_storeVideo:
  "tiktoks (storeVideo sb now v d) =
     (case getTiktokId (video_url v) of
        None \<Rightarrow> tiktoks d
      | Some i \<Rightarrow>
          (case created_at v now of
             None \<Rightarrow> tiktoks d
           | Some c \<Rightarrow>
               if accepts_upsert sb (tiktokRecord i c now v)
               then upsert (tiktokRecord i c now v) (tiktoks d) else tiktoks d))"
  by (simp add: storeVideo_def Let_def split: option.splits)

lemma distinct_storeVideo:
  "distinct (ids d) \<Longrightarrow> distinct (ids (storeVideo sb now v d))"
  by (simp add: ids_def tiktoks_storeVideo distinct_upsert split: option.splits)

lemma distinct_storeVideos:
  "distinct (ids d) \<Longrightarrow> distinct (ids (storeVideos sb now vs d))"
  by (induction vs arbitrary: d) (simp_all add: distinct_storeVideo)

lemma ids_storeVideo_mono: "set (ids d) \<subseteq> set (ids (storeVideo sb now v d))"
  by (auto simp: ids_def tiktoks_storeVideo image_t_id_upsert split: option.splits)

lemma ids_storeVideos_mono: "set (ids d) \<subseteq> set (ids (storeVideos sb now vs d))"
proof (induction vs arbitrary: d)
  case Nil
  show ?case by simp
next
  case (Cons v vs)
  from ids_storeVideo_mono[of d sb now v] Cons[of "storeVideo sb now v d"]
  show ?case by auto
qed

lemma ids_storeVideo_accepting:
  assumes "\<forall>r. accepts_upsert sb r" and "storable v = Some i"
  shows "i \<in> set (ids (storeVideo sb now v d))"
proof -
  from assms(2) obtain c0 where i: "getTiktokId (video_url v) = Some i" "created_at v 0 = Some c0"
    by (auto simp: storable_def split: option.splits)
  from i(2) obtain c where "created_at v now = Some c"
    using created_at_None_iff[of v now] by (cases "created_at v now") auto
  with i(1) assms(1) show ?thesis
    by (auto simp: ids_def tiktoks_storeVideo image_t_id_upsert)
qed

lemma ids_storeVideos_accepting:
  assumes "\<forall>r. accepts_upsert sb r" and "v \<in> set vs" and "storable v = Some i"
  shows "i \<in> set (ids (storeVideos sb now vs d))"
  using assms(2)
proof (induction vs arbitrary: d)
  case Nil
  then show ?case by simp
next
  case (Cons a vs)
  show ?case
  proof (cases "v = a")
    case True
    from ids_storeVideo_accepting[OF assms(1) assms(3), of now d] True
    have "i \<in> set (ids (storeVideo sb now a d))" by simp
    with ids_storeVideos_mono[of "storeVideo sb now a d" sb now vs]
    show ?thesis by auto
  next
    case False
    with Cons.prems have "v \<in> set vs" by simp
    from Cons.IH[OF this] show ?thesis by simp
  qed
qed

lemma length_storeVideo_present:
  assumes "\<forall>i. storable v = Some i \<longrightarrow> i \<in> set (ids d)"
  shows "length (tiktoks (storeVideo sb now v d)) = length (tiktoks d)"
proof (cases "storable v")
  case None
  then have "getTiktokId (video_url v) = None \<or> created_at v now = None"
    using created_at_None_iff[of v now] by (auto simp: storable_def split: option.splits)
  then show ?thesis by (auto simp: tiktoks_storeVideo split: option.splits)
next
  case (Some i)
  with assms have "i \<in> set (ids d)" by simp
  moreover from Some have "getTiktokId (video_url v) = Some i"
    by (auto simp: storable_def split: option.splits)
  ultimately show ?thesis
    by (auto simp: tiktoks_storeVideo ids_def length_upsert_present split: option.splits)
qed

lemma length_storeVideos_present:
  assumes "\<forall>v \<in> set vs. \<forall>i. storable v = Some i \<longrightarrow> i \<in> set (ids d)"
  shows "length (tiktoks (storeVideos sb now vs d)) = length (tiktoks d)"
  using assms
proof (induction vs arbitrary: d)
  case Nil
  show ?case by simp
next
  case (Cons v vs)
  have 1: "length (tiktoks (storeVideo sb now v d)) = length (tiktoks d)"
    using Cons.prems by (intro length_storeVideo_present) simp
  have "\<forall>w \<in> set vs. \<forall>i. storable w = Some i \<longrightarrow> i \<in> set (ids (storeVideo sb now v d))"
    using Cons.prems ids_storeVideo_mono[of d sb now v] by auto
  from Cons.IH[OF this] 1 show ?case by simp
qed

lemma rescrape_length:
  assumes "\<forall>r. accepts_upsert sb1 r"
  shows "length (tiktoks (storeVideos sb2 now2 vs (storeVideos sb1 now1 vs d)))
           = length (tiktoks (storeVideos sb1 now1 vs d))"
  by (rule length_storeVideos_present) (auto intro: ids_storeVideos_accepting[OF assms])

text \<open>
  Claim C7. Storing a video whose id is already in \<^verbatim>\<open>tiktoks\<close> leaves the number
  of rows unchanged; when the store accepts the upsert, the row with that id is the new
  record, with the new \<^verbatim>\<open>fetched_at\<close>, views and comment count.
  \<^verbatim>\<open>storeVideos\<close> never creates two rows with one id, and storing the same videos a
  second time, after a run whose upserts were accepted, leaves the number of rows
  unchanged.
\<close>

theorem storeVideos_upserts_on_id:
  "(getTiktokId (video_url v) = Some i \<and> i \<in> set (map t_id (tiktoks d)) \<longrightarrow>
      length (tiktoks (storeVideo sb now v d)) = length (tiktoks d))
   \<and> (getTiktokId (video_url v) = Some i \<and> created_at v now = Some c
        \<and> accepts_upsert sb (tiktokRecord i c now v) \<longrightarrow>
        tiktokRecord i c now v \<in> set (tiktoks (storeVideo sb now v d))
        \<and> (\<forall>row \<in> set (tiktoks (storeVideo sb now v d)).
              t_id row = i \<longrightarrow> row = tiktokRecord i c now v)
        \<and> t_fetched_at (tiktokRecord i c now v) = now
        \<and> t_views (tiktokRecord i c now v) =
            formatViews (case views v of None \<Rightarrow> ''0'' | Some s \<Rightarrow> if s = [] then ''0'' else s)
        \<and> t_comments (tiktokRecord i c now v) =
            (case video_comments v of None \<Rightarrow> 0 | Some cs \<Rightarrow> count cs))
   \<and> (distinct (map t_id (tiktoks d)) \<longrightarrow>
        distinct (map t_id (tiktoks (storeVideos sb now vs d))))
   \<and> ((\<forall>r. accepts_upsert sb r) \<longrightarrow>
        length (tiktoks (storeVideos sb' now' vs (storeVideos sb now vs d)))
          = length (tiktoks (storeVideos sb now vs d)))"
proof (intro conjI impI)
  assume "getTiktokId (video_url v) = Some i \<and> i \<in> set (map t_id (tiktoks d))"
  then show "length (tiktoks (storeVideo sb now v d)) = length (tiktoks d)"
    by (auto simp: tiktoks_storeVideo length_upsert_present split: option.splits)
next
  assume a: "getTiktokId (video_url v) = Some i \<and> created_at v now = Some c
        \<and> accepts_upsert sb (tiktokRecord i c now v)"
  then have t: "tiktoks (storeVideo sb now v d) = upsert (tiktokRecord i c now v) (tiktoks d)"
    by (simp add: tiktoks_storeVideo)
  show "tiktokRecord i c now v \<in> set (tiktoks (storeVideo sb now v d))"
    unfolding t by (rule upsert_mem)
  show "\<forall>row \<in> set (tiktoks (storeVideo sb now v d)). t_id row = i \<longrightarrow> row = tiktokRecord i c now v"
    unfolding t using upsert_row[of _ "tiktokRecord i c now v" "tiktoks d"] by auto
  show "t_fetched_at (tiktokRecord i c now v) = now" by (simp add: tiktokRecord_def)
  show "t_views (tiktokRecord i c now v) =
            formatViews (case views v of None \<Rightarrow> ''0'' | Some s \<Rightarrow> if s = [] then ''0'' else s)"
    by (simp add: tiktokRecord_def)
  show "t_comments (tiktokRecord i c now v) =
            (case video_comments v of None \<Rightarrow> 0 | Some cs \<Rightarrow> count cs)"
    by (simp add: tiktokRecord_def)
next
  assume "distinct (map t_id (tiktoks d))"
  then show "distinct (map t_id (tiktoks (storeVideos sb now vs d)))"
    using distinct_storeVideos[of d sb now vs] by (simp add: ids_def)
next
  assume "\<forall>r. accepts_upsert sb r"
  then show "length (tiktoks (storeVideos sb' now' vs (storeVideos sb now vs d)))
          = length (tiktoks (storeVideos sb now vs d))"
    by (rule rescrape_length)
qed

lemma getTiktokId_bonk: "getTiktokId (video_url bonk_video) = Some ''123''"
  by (simp add: bonk_video_def is_digit_def)

theorem storeVideos_upserts_on_id_witness:
  "getTiktokId (video_url bonk_video) = Some ''123''
   \<and> ''123'' \<in> set (map t_id (tiktoks seeded_db))
   \<and> length (tiktoks (storeVideo ok_store 1000 bonk_video seeded_db)) = length (tiktoks seeded_db)
   \<and> tiktokRecord ''123'' 1000 1000 bonk_video
         \<in> set (tiktoks (storeVideo ok_store 1000 bonk_video seeded_db))
   \<and> t_fetched_at (tiktokRecord ''123'' 1000 1000 bonk_video) = 1000
   \<and> distinct (map t_id (tiktoks (storeVideos ok_store 1000 [bonk_video, bonk_video] seeded_db)))
   \<and> length (tiktoks (storeVideos ok_store 2000 [bonk_video, bonk_video]
                (storeVideos ok_store 1000 [bonk_video, bonk_video] seeded_db)))
      = length (tiktoks (storeVideos ok_store 1000 [bonk_video, bonk_video] seeded_db))"
proof -
  have g: "getTiktokId (video_url bonk_video) = Some ''123''"
    by (rule getTiktokId_bonk)
  have p: "''123'' \<in> set (map t_id (tiktoks seeded_db))"
    by (simp add: seeded_db_def)
  have c: "created_at bonk_video 1000 = Some 1000"
    by (simp add: created_at_def bonk_video_def)
  have a: "\<forall>r. accepts_upsert ok_store r"
    by (simp add: ok_store_def)
  have dd: "distinct (map t_id (tiktoks seeded_db))"
    by (simp add: seeded_db_def)
  note inst = storeVideos_upserts_on_id
          [where v = bonk_video and i = "''123''" and d = seeded_db and sb = ok_store
             and now = 1000 and c = 1000 and vs = "[bonk_video, bonk_video]"
             and sb' = ok_store and now' = 2000]
  from inst g p have 1:
    "length (tiktoks (storeVideo ok_store 1000 bonk_video seeded_db)) = length (tiktoks seeded_db)"
    by blast
  from inst g c a have 2:
    "tiktokRecord ''123'' 1000 1000 bonk_video
         \<in> set (tiktoks (storeVideo ok_store 1000 bonk_video seeded_db))"
    "t_fetched_at (tiktokRecord ''123'' 1000 1000 bonk_video) = 1000"
    by blast+
  from inst dd have 3:
    "distinct (map t_id (tiktoks (storeVideos ok_store 1000 [bonk_video, bonk_video] seeded_db)))"
    by blast
  from inst a have 4:
    "length (tiktoks (storeVideos ok_store 2000 [bonk_video, bonk_video]
                (storeVideos ok_store 1000 [bonk_video, bonk_video] seeded_db)))
      = length (tiktoks (storeVideos ok_store 1000 [bonk_video, bonk_video] seeded_db))"
    by blast
  from g p 1 2 3 4 show ?thesis by blast
qed

subsection \<open>Mentions\<close>


lemma foldl_add_token:
  "foldl add_token m toks smb =
   (if ids_of smb toks = [] then m smb
    else Some ((case m smb of None \<Rightarrow> [] | Some tokenIds \<Rightarrow> tokenIds) @ ids_of smb toks))"
proof (induction toks arbitrary: m)
  case Nil
  show ?case by (simp add: ids_of_def)
next
  case (Cons tok toks)
  have "foldl add_token m (tok # toks) smb = foldl add_token (add_token m tok) toks smb"
    by simp
  also have "\<dots> = (if ids_of smb toks = [] then add_token m tok smb
    else Some ((case add_token m tok smb of None \<Rightarrow> [] | Some tokenIds \<Rightarrow> tokenIds)
               @ ids_of smb toks))"
    by (rule Cons)
  also have "\<dots> = (if ids_of smb (tok # toks) = [] then m smb
    else Some ((case m smb of None \<Rightarrow> [] | Some tokenIds \<Rightarrow> tokenIds) @ ids_of smb (tok # toks)))"
    by (simp add: add_token_def ids_of_def)
  finally show ?case .
qed

lemma symbolToTokens_eq:
  "symbolToTokens toks smb = (if ids_of smb toks = [] then None else Some (ids_of smb toks))"
  unfolding symbolToTokens_def foldl_add_token by simp

lemma mentionsData_eq:
  "mentionsData (symbolToTokens toks) tid now entries =
     concat (map (\<lambda>(smb, cnt).
                    map (\<lambda>tok. \<lparr>m_tiktok_id = tid, m_count = cnt, m_token_id = k_id tok,
                                 m_mention_at = now\<rparr>)
                      (filter (\<lambda>tok. k_symbol tok = smb) toks))
             entries)"
proof -
  have "(case symbolToTokens toks smb of
           None \<Rightarrow> []
         | Some tokenIds \<Rightarrow>
             map (\<lambda>tokenId. \<lparr>m_tiktok_id = tid, m_count = cnt, m_token_id = tokenId,
                              m_mention_at = now\<rparr>) tokenIds)
        = map (\<lambda>tok. \<lparr>m_tiktok_id = tid, m_count = cnt, m_token_id = k_id tok,
                        m_mention_at = now\<rparr>)
            (filter (\<lambda>tok. k_symbol tok = smb) toks)" for smb cnt
    by (simp add: symbolToTokens_eq ids_of_def comp_def)
  then show ?thesis by (simp add: mentionsData_def)
qed

lemma token_ids_mentionsData:
  "map m_token_id (mentionsData (symbolToTokens toks) tid now entries) =
     concat (map (\<lambda>(smb, cnt). ids_of smb toks) entries)"
  by (induction entries) (auto simp: mentionsData_eq ids_of_def comp_def)

lemma distinct_ids_of:
  assumes "distinct (map k_id toks)" and "distinct (map fst entries)"
  shows "distinct (concat (map (\<lambda>(smb, cnt). ids_of smb toks) entries))"
  using assms(2)
proof (induction entries)
  case Nil
  show ?case by simp
next
  case (Cons e entries)
  obtain smb cnt where e: "e = (smb, cnt)" by (cases e)
  have d1: "distinct (ids_of smb toks)"
    using assms(1) unfolding ids_of_def by (rule distinct_map_filter)
  have inj: "inj_on k_id (set toks)" using assms(1) by (simp add: distinct_map)
  have d2: "set (ids_of smb toks) \<inter> set (ids_of smb' toks) = {}" if "smb' \<noteq> smb" for smb'
  proof (rule ccontr)
    assume "set (ids_of smb toks) \<inter> set (ids_of smb' toks) \<noteq> {}"
    then obtain i where "i \<in> set (ids_of smb toks)" "i \<in> set (ids_of smb' toks)" by blast
    then obtain t1 t2 where "t1 \<in> set toks" "k_symbol t1 = smb" "k_id t1 = i"
      "t2 \<in> set toks" "k_symbol t2 = smb'" "k_id t2 = i"
      by (auto simp: ids_of_def)
    with inj have "t1 = t2" by (auto dest: inj_onD)
    with \<open>k_symbol t1 = smb\<close> \<open>k_symbol t2 = smb'\<close> that show False by simp
  qed
  have d3: "set (ids_of smb toks) \<inter> set (concat (map (\<lambda>(smb, cnt). ids_of smb toks) entries)) = {}"
  proof -
    have "smb' \<noteq> smb" if "(smb', c') \<in> set entries" for smb' c'
      using Cons.prems e that by force
    then show ?thesis using d2 by fastforce
  qed
  from Cons e d1 d3 show ?case by simp
qed

lemma storeTokenMentions_mentions:
  "mentions (storeTokenMentions sb now tid cs d) = mentions d
   \<or> (\<exists>c entries. cs = Some c \<and> tickers c = Some entries \<and> select_ok sb
        \<and> accepts_insert sb (mentionsData (symbolToTokens (sort_key k_id (tokens d))) tid now entries)
        \<and> mentions (storeTokenMentions sb now tid cs d) =
            mentions d @ mentionsData (symbolToTokens (sort_key k_id (tokens d))) tid now entries)"
  by (auto simp: storeTokenMentions_def Let_def insert_rows_def split: option.splits)

lemma mentionsData_stamp:
  "r \<in> set (mentionsData m tid now entries) \<Longrightarrow> m_tiktok_id r = tid \<and> m_mention_at r = now"
  by (auto simp: mentionsData_def split: option.splits)

lemma distinct_sorted_ids:
  "distinct (map k_id toks) \<Longrightarrow> distinct (map k_id (sort_key k_id toks))"
  by (simp add: distinct_map)

text \<open>
  Claim C5, as stated, fails: storing the mentions of the same TikTok and the same
  tickers a second time leaves two rows for the same TikTok id and token.
\<close>

theorem mentions_duplicate_counterexample:
  "filter (\<lambda>r. m_tiktok_id r = ''123'' \<and> m_token_id r = 1)
     (mentions (storeTokenMentions ok_store 2000 ''123'' (Some bonk_comments)
        (storeTokenMentions ok_store 1000 ''123'' (Some bonk_comments) bonk_db)))
   = [\<lparr>m_tiktok_id = ''123'', m_count = 3, m_token_id = 1, m_mention_at = 1000\<rparr>,
      \<lparr>m_tiktok_id = ''123'', m_count = 3, m_token_id = 1, m_mention_at = 2000\<rparr>]"
  by (simp add: storeTokenMentions_def ok_store_def bonk_comments_def bonk_db_def
      mentionsData_def symbolToTokens_def add_token_def insert_rows_def)

lemma storeTokenMentions_appends_rows:
  "\<exists>rows. mentions (storeTokenMentions sb now tid cs d) = mentions d @ rows
     \<and> (\<forall>r \<in> set rows. m_tiktok_id r = tid \<and> m_mention_at r = now)
     \<and> (distinct (map k_id (tokens d))
          \<and> (\<forall>c entries. cs = Some c \<and> tickers c = Some entries \<longrightarrow> distinct (map fst entries))
        \<longrightarrow> distinct (map m_token_id rows))"
proof -
  from storeTokenMentions_mentions[of sb now tid cs d]
  consider (same) "mentions (storeTokenMentions sb now tid cs d) = mentions d"
    | (added) c entries where "cs = Some c" "tickers c = Some entries"
        "mentions (storeTokenMentions sb now tid cs d) =
            mentions d @ mentionsData (symbolToTokens (sort_key k_id (tokens d))) tid now entries"
    by blast
  then show ?thesis
  proof cases
    case same
    then have "mentions (storeTokenMentions sb now tid cs d) = mentions d @ []" by simp
    then show ?thesis by (intro exI[of _ "[]"]) simp
  next
    case added
    let ?rows = "mentionsData (symbolToTokens (sort_key k_id (tokens d))) tid now entries"
    have "\<forall>r \<in> set ?rows. m_tiktok_id r = tid \<and> m_mention_at r = now"
      using mentionsData_stamp by blast
    moreover have "distinct (map m_token_id ?rows)"
      if "distinct (map k_id (tokens d))" "distinct (map fst entries)"
      unfolding token_ids_mentionsData
      using distinct_sorted_ids[OF that(1)] that(2) by (rule distinct_ids_of)
    ultimately show ?thesis using added by (intro exI[of _ ?rows]) auto
  qed
qed

lemma mem_mentionsData:
  "r \<in> set (mentionsData (symbolToTokens toks) tid now entries) \<longleftrightarrow>
     (\<exists>e \<in> set entries. \<exists>tok \<in> set toks. k_symbol tok = fst e
        \<and> r = \<lparr>m_tiktok_id = tid, m_count = snd e, m_token_id = k_id tok, m_mention_at = now\<rparr>)"
  unfolding mentionsData_eq
  by (induction entries) (auto simp: case_prod_beta)

lemma mentionsData_known:
  "mentionsData (symbolToTokens toks) tid now
      (filter (\<lambda>(smb, cnt). smb \<in> set (map k_symbol toks)) entries)
   = mentionsData (symbolToTokens toks) tid now entries"
  unfolding mentionsData_eq
proof (induction entries)
  case Nil
  show ?case by simp
next
  case (Cons e entries)
  obtain smb cnt where e: "e = (smb, cnt)" by (cases e)
  show ?case
  proof (cases "smb \<in> set (map k_symbol toks)")
    case True
    with Cons e show ?thesis by simp
  next
    case False
    then have "filter (\<lambda>tok. k_symbol tok = smb) toks = []"
      by (auto simp: filter_empty_conv)
    with False Cons e show ?thesis by simp
  qed
qed

lemma tokens_storeTokenMentions [simp]:
  "tokens (storeTokenMentions sb now tid cs d) = tokens d"
  by (simp add: storeTokenMentions_def Let_def split: option.splits)

lemma length_filter_eq_distinct:
  "distinct xs \<Longrightarrow> a \<in> set xs \<Longrightarrow> length (filter (\<lambda>x. x = a) xs) = 1"
  by (induction xs) (auto simp: filter_empty_conv)

lemma pair_rows_mentionsData:
  assumes "distinct (map k_id toks)" and "distinct (map fst entries)"
    and "tok \<in> set toks" and "k_symbol tok \<in> set (map fst entries)"
  shows "length (filter (\<lambda>r. m_tiktok_id r = tid \<and> m_token_id r = k_id tok)
                   (mentionsData (symbolToTokens toks) tid now entries)) = 1"
proof -
  let ?rows = "mentionsData (symbolToTokens toks) tid now entries"
  have f1: "filter (\<lambda>r. m_tiktok_id r = tid \<and> m_token_id r = k_id tok) ?rows
        = filter (\<lambda>r. m_token_id r = k_id tok) ?rows"
    using mentionsData_stamp[of _ "symbolToTokens toks" tid now entries]
    by (intro filter_cong) auto
  have f2: "length (filter (\<lambda>r. m_token_id r = k_id tok) ?rows)
        = length (filter (\<lambda>x. x = k_id tok) (map m_token_id ?rows))"
    by (simp add: filter_map comp_def)
  have f3: "distinct (map m_token_id ?rows)"
    unfolding token_ids_mentionsData using assms(1,2) by (rule distinct_ids_of)
  have f4: "k_id tok \<in> set (map m_token_id ?rows)"
  proof -
    from assms(4) obtain e where e: "e \<in> set entries" "fst e = k_symbol tok" by auto
    with assms(3) have
      "\<lparr>m_tiktok_id = tid, m_count = snd e, m_token_id = k_id tok, m_mention_at = now\<rparr> \<in> set ?rows"
      unfolding mem_mentionsData by (intro bexI[of _ e] bexI[of _ tok]) simp_all
    then have "m_token_id \<lparr>m_tiktok_id = tid, m_count = snd e, m_token_id = k_id tok,
                           m_mention_at = now\<rparr> \<in> m_token_id ` set ?rows"
      by (rule imageI)
    then show ?thesis by simp
  qed
  show ?thesis
    unfolding f1 f2 using f3 f4 by (rule length_filter_eq_distinct)
qed

lemma storeTokenMentions_adds_row:
  assumes "tickers c = Some entries" and "select_ok sb" and "\<forall>rows. accepts_insert sb rows"
    and "distinct (map k_id (tokens d))" and "distinct (map fst entries)"
    and "tok \<in> set (tokens d)" and "k_symbol tok \<in> set (map fst entries)"
  shows "length (filter (\<lambda>r. m_tiktok_id r = tid \<and> m_token_id r = k_id tok)
                   (mentions (storeTokenMentions sb now tid (Some c) d)))
         = Suc (length (filter (\<lambda>r. m_tiktok_id r = tid \<and> m_token_id r = k_id tok)
                   (mentions d)))"
proof -
  let ?toks = "sort_key k_id (tokens d)"
  let ?rows = "mentionsData (symbolToTokens ?toks) tid now entries"
  have m: "mentions (storeTokenMentions sb now tid (Some c) d) = mentions d @ ?rows"
    using assms(1-3) by (simp add: storeTokenMentions_def Let_def insert_rows_def)
  have "tok \<in> set ?toks" using assms(6) by simp
  from pair_rows_mentionsData[OF distinct_sorted_ids[OF assms(4)] assms(5) this assms(7)]
  show ?thesis unfolding m by simp
qed

text \<open>
  Claim C5, amended. \<^verbatim>\<open>storeTokenMentions\<close> only adds rows to \<^verbatim>\<open>mentions\<close>:
  the rows that were there stay as they are, and the rows of one call all carry the
  call's TikTok id and time; when the token ids are unique and the tickers' keys are
  unique, one call writes at most one row for each token. When the store answers, a call
  adds exactly one row for the TikTok id and every token whose symbol is among the
  tickers, whatever rows are there already: a second call for the same TikTok id and
  tickers leaves two rows more than there were for that pair.
\<close>

theorem storeTokenMentions_appends:
  "(\<exists>rows. mentions (storeTokenMentions sb now tid cs d) = mentions d @ rows
      \<and> (\<forall>r \<in> set rows. m_tiktok_id r = tid \<and> m_mention_at r = now)
      \<and> (distinct (map k_id (tokens d))
           \<and> (\<forall>c entries. cs = Some c \<and> tickers c = Some entries \<longrightarrow> distinct (map fst entries))
         \<longrightarrow> distinct (map m_token_id rows)))
   \<and> (tickers c = Some entries \<and> select_ok sb \<and> (\<forall>rows. accepts_insert sb rows)
        \<and> distinct (map k_id (tokens d)) \<and> distinct (map fst entries)
        \<and> tok \<in> set (tokens d) \<and> k_symbol tok \<in> set (map fst entries) \<longrightarrow>
      length (filter (\<lambda>r. m_tiktok_id r = tid \<and> m_token_id r = k_id tok)
                (mentions (storeTokenMentions sb now tid (Some c) d)))
        = Suc (length (filter (\<lambda>r. m_tiktok_id r = tid \<and> m_token_id r = k_id tok)
                         (mentions d)))
      \<and> length (filter (\<lambda>r. m_tiktok_id r = tid \<and> m_token_id r = k_id tok)
                (mentions (storeTokenMentions sb now' tid (Some c)
                             (storeTokenMentions sb now tid (Some c) d))))
        = Suc (Suc (length (filter (\<lambda>r. m_tiktok_id r = tid \<and> m_token_id r = k_id tok)
                              (mentions d)))))"
proof (intro conjI impI)
  show "\<exists>rows. mentions (storeTokenMentions sb now tid cs d) = mentions d @ rows
      \<and> (\<forall>r \<in> set rows. m_tiktok_id r = tid \<and> m_mention_at r = now)
      \<and> (distinct (map k_id (tokens d))
           \<and> (\<forall>c entries. cs = Some c \<and> tickers c = Some entries \<longrightarrow> distinct (map fst entries))
         \<longrightarrow> distinct (map m_token_id rows))"
    by (rule storeTokenMentions_appends_rows)
next
  assume a: "tickers c = Some entries \<and> select_ok sb \<and> (\<forall>rows. accepts_insert sb rows)
        \<and> distinct (map k_id (tokens d)) \<and> distinct (map fst entries)
        \<and> tok \<in> set (tokens d) \<and> k_symbol tok \<in> set (map fst entries)"
  let ?P = "\<lambda>r. m_tiktok_id r = tid \<and> m_token_id r = k_id tok"
  let ?d1 = "storeTokenMentions sb now tid (Some c) d"
  from a have h: "tickers c = Some entries" "select_ok sb" "\<forall>rows. accepts_insert sb rows"
    "distinct (map k_id (tokens d))" "distinct (map fst entries)"
    "tok \<in> set (tokens d)" "k_symbol tok \<in> set (map fst entries)"
    by blast+
  from h show 1: "length (filter ?P (mentions ?d1)) = Suc (length (filter ?P (mentions d)))"
    by (rule storeTokenMentions_adds_row)
  have h': "distinct (map k_id (tokens ?d1))" "tok \<in> set (tokens ?d1)"
    using h(4,6) by simp_all
  have "length (filter ?P (mentions (storeTokenMentions sb now' tid (Some c) ?d1)))
      = Suc (length (filter ?P (mentions ?d1)))"
    using h(1-3) h'(1) h(5) h'(2) h(7) by (rule storeTokenMentions_adds_row)
  with 1 show "length (filter ?P (mentions (storeTokenMentions sb now' tid (Some c) ?d1)))
      = Suc (Suc (length (filter ?P (mentions d))))" by simp
qed

theorem storeTokenMentions_appends_witness:
  "distinct (map k_id (tokens bonk_db))
   \<and> k_symbol \<lparr>k_id = 1, k_symbol = ''BONK''\<rparr> \<in> set (map fst [(''BONK'', 3), (''DOGE'', 1 :: int)])
   \<and> (\<exists>rows. mentions (storeTokenMentions ok_store 1000 ''123'' (Some bonk_comments) bonk_db)
                = mentions bonk_db @ rows
        \<and> distinct (map m_token_id rows))
   \<and> length (filter (\<lambda>r. m_tiktok_id r = ''123'' \<and> m_token_id r = 1)
                (mentions (storeTokenMentions ok_store 1000 ''123'' (Some bonk_comments) bonk_db)))
        = 1
   \<and> length (filter (\<lambda>r. m_tiktok_id r = ''123'' \<and> m_token_id r = 1)
                (mentions (storeTokenMentions ok_store 2000 ''123'' (Some bonk_comments)
                   (storeTokenMentions ok_store 1000 ''123'' (Some bonk_comments) bonk_db))))
        = 2"
proof -
  have h: "tickers bonk_comments = Some [(''BONK'', 3), (''DOGE'', 1)]" "select_ok ok_store"
    "\<forall>rows. accepts_insert ok_store rows" "distinct (map k_id (tokens bonk_db))"
    "distinct (map fst [(''BONK'', 3), (''DOGE'', 1 :: int)])"
    "\<lparr>k_id = 1, k_symbol = ''BONK''\<rparr> \<in> set (tokens bonk_db)"
    "k_symbol \<lparr>k_id = 1, k_symbol = ''BONK''\<rparr> \<in> set (map fst [(''BONK'', 3), (''DOGE'', 1 :: int)])"
    "mentions bonk_db = []"
    by (simp_all add: bonk_comments_def ok_store_def bonk_db_def)
  note inst = storeTokenMentions_appends
      [where sb = ok_store and now = 1000 and tid = "''123''" and cs = "Some bonk_comments"
         and d = bonk_db and c = bonk_comments and entries = "[(''BONK'', 3), (''DOGE'', 1)]"
         and tok = "\<lparr>k_id = 1, k_symbol = ''BONK''\<rparr>" and now' = 2000]
  from inst h(1,4,5) have 1:
    "\<exists>rows. mentions (storeTokenMentions ok_store 1000 ''123'' (Some bonk_comments) bonk_db)
                = mentions bonk_db @ rows \<and> distinct (map m_token_id rows)"
    by auto
  from inst h have 2:
    "length (filter (\<lambda>r. m_tiktok_id r = ''123'' \<and> m_token_id r = 1)
                (mentions (storeTokenMentions ok_store 1000 ''123'' (Some bonk_comments) bonk_db)))
        = 1"
    "length (filter (\<lambda>r. m_tiktok_id r = ''123'' \<and> m_token_id r = 1)
                (mentions (storeTokenMentions ok_store 2000 ''123'' (Some bonk_comments)
                   (storeTokenMentions ok_store 1000 ''123'' (Some bonk_comments) bonk_db))))
        = 2"
    by simp_all
  from h(4,7) 1 2 show ?thesis by blast
qed

text \<open>
  Claim C8. When the tokens can be selected and the store accepts the insert, a symbol
  of the tickers with no token of that symbol has no effect at all (the call does what it
  does without these symbols); every row written is the row of a ticker entry and of a
  token with the entry's symbol, and every such row is written. The method has a
  \<^verbatim>\<open>try\<close> around its whole body and returns nothing: there is no error to return.
\<close>

theorem storeTokenMentions_skips_unknown:
  assumes "tickers c = Some entries" and "select_ok sb" and "\<forall>rows. accepts_insert sb rows"
  shows "storeTokenMentions sb now tid (Some c) d =
           storeTokenMentions sb now tid
             (Some (c\<lparr>tickers := Some (filter (\<lambda>(smb, cnt). smb \<in> set (map k_symbol (tokens d)))
                                      entries)\<rparr>)) d
         \<and> (\<exists>rows. mentions (storeTokenMentions sb now tid (Some c) d) = mentions d @ rows
              \<and> (\<forall>r \<in> set rows. \<exists>e \<in> set entries. \<exists>tok \<in> set (tokens d).
                     k_symbol tok = fst e
                     \<and> r = \<lparr>m_tiktok_id = tid, m_count = snd e, m_token_id = k_id tok,
                            m_mention_at = now\<rparr>))
         \<and> (\<forall>e \<in> set entries. \<forall>tok \<in> set (tokens d). k_symbol tok = fst e \<longrightarrow>
               \<lparr>m_tiktok_id = tid, m_count = snd e, m_token_id = k_id tok, m_mention_at = now\<rparr>
                 \<in> set (mentions (storeTokenMentions sb now tid (Some c) d)))"
proof -
  let ?toks = "sort_key k_id (tokens d)"
  let ?known = "filter (\<lambda>(smb, cnt). smb \<in> set (map k_symbol (tokens d))) entries"
  let ?rows = "mentionsData (symbolToTokens ?toks) tid now entries"
  have "set (map k_symbol ?toks) = set (map k_symbol (tokens d))" by simp
  then have "?known = filter (\<lambda>(smb, cnt). smb \<in> set (map k_symbol ?toks)) entries"
    by simp
  then have rows_known: "mentionsData (symbolToTokens ?toks) tid now ?known = ?rows"
    using mentionsData_known[of ?toks tid now entries] by simp
  have m: "mentions (storeTokenMentions sb now tid (Some c) d) = mentions d @ ?rows"
    using assms by (simp add: storeTokenMentions_def Let_def insert_rows_def)
  have 1: "storeTokenMentions sb now tid (Some c) d =
           storeTokenMentions sb now tid (Some (c\<lparr>tickers := Some ?known\<rparr>)) d"
  proof -
    have lhs: "storeTokenMentions sb now tid (Some c) d =
        (if ?rows \<noteq> [] \<and> accepts_insert sb ?rows
         then d\<lparr>mentions := insert_rows ?rows (mentions d)\<rparr> else d)"
      using assms(1,2) by (simp add: storeTokenMentions_def Let_def)
    have rhs: "storeTokenMentions sb now tid (Some (c\<lparr>tickers := Some ?known\<rparr>)) d =
        (if mentionsData (symbolToTokens ?toks) tid now ?known \<noteq> []
            \<and> accepts_insert sb (mentionsData (symbolToTokens ?toks) tid now ?known)
         then d\<lparr>mentions := insert_rows (mentionsData (symbolToTokens ?toks) tid now ?known)
                                (mentions d)\<rparr> else d)"
      using assms(2) by (simp add: storeTokenMentions_def Let_def)
    show ?thesis unfolding lhs rhs rows_known by (rule refl)
  qed
  have 2: "\<forall>r \<in> set ?rows. \<exists>e \<in> set entries. \<exists>tok \<in> set (tokens d).
                     k_symbol tok = fst e
                     \<and> r = \<lparr>m_tiktok_id = tid, m_count = snd e, m_token_id = k_id tok,
                            m_mention_at = now\<rparr>"
    using mem_mentionsData[of _ ?toks tid now entries] by simp
  have 3: "\<forall>e \<in> set entries. \<forall>tok \<in> set (tokens d). k_symbol tok = fst e \<longrightarrow>
               \<lparr>m_tiktok_id = tid, m_count = snd e, m_token_id = k_id tok, m_mention_at = now\<rparr>
                 \<in> set (mentions (storeTokenMentions sb now tid (Some c) d))"
    unfolding m using mem_mentionsData[of _ ?toks tid now entries] by auto
  show ?thesis
  proof (intro conjI)
    show "storeTokenMentions sb now tid (Some c) d =
           storeTokenMentions sb now tid (Some (c\<lparr>tickers := Some ?known\<rparr>)) d" by (rule 1)
    show "\<exists>rows. mentions (storeTokenMentions sb now tid (Some c) d) = mentions d @ rows
              \<and> (\<forall>r \<in> set rows. \<exists>e \<in> set entries. \<exists>tok \<in> set (tokens d).
                     k_symbol tok = fst e
                     \<and> r = \<lparr>m_tiktok_id = tid, m_count = snd e, m_token_id = k_id tok,
                            m_mention_at = now\<rparr>)"
      using m 2 by blast
    show "\<forall>e \<in> set entries. \<forall>tok \<in> set (tokens d). k_symbol tok = fst e \<longrightarrow>
               \<lparr>m_tiktok_id = tid, m_count = snd e, m_token_id = k_id tok, m_mention_at = now\<rparr>
                 \<in> set (mentions (storeTokenMentions sb now tid (Some c) d))" by (rule 3)
  qed
qed

theorem storeTokenMentions_skips_unknown_witness:
  "tickers bonk_comments = Some [(''BONK'', 3), (''DOGE'', 1)] \<and> select_ok ok_store
   \<and> mentions (storeTokenMentions ok_store 1000 ''123'' (Some bonk_comments) bonk_db)
       = [\<lparr>m_tiktok_id = ''123'', m_count = 3, m_token_id = 1, m_mention_at = 1000\<rparr>]"
  using storeTokenMentions_skips_unknown
          [of bonk_comments "[(''BONK'', 3), (''DOGE'', 1)]" ok_store 1000 "''123''" bonk_db]
  by (simp add: storeTokenMentions_def ok_store_def bonk_comments_def bonk_db_def
      mentionsData_def symbolToTokens_def add_token_def insert_rows_def)

subsection \<open>formatViews\<close>








lemma ilog2_bounds: "0 < n \<Longrightarrow> 2 ^ ilog2 n \<le> n \<and> n < 2 ^ Suc (ilog2 n)"
proof (induction n rule: ilog2.induct)
  case (1 n)
  show ?case
  proof (cases "n < 2")
    case True
    with "1.prems" have "n = 1" by simp
    then show ?thesis by (simp add: ilog2.simps)
  next
    case False
    then have "0 < n div 2" by simp
    with "1.IH" False have ih: "2 ^ ilog2 (n div 2) \<le> n div 2" "n div 2 < 2 ^ Suc (ilog2 (n div 2))"
      by simp_all
    have eq: "ilog2 n = Suc (ilog2 (n div 2))" using False by (simp add: ilog2.simps)
    from ih show ?thesis unfolding eq by auto
  qed
qed

lemma ilog2_unique:
  assumes "2 ^ k \<le> n" and "n < 2 ^ Suc k"
  shows "ilog2 n = k"
proof -
  from assms(1) have pos: "0 < n" by (metis less_le_trans zero_less_numeral zero_less_power)
  from ilog2_bounds[OF pos] have b: "2 ^ ilog2 n \<le> n" "n < 2 ^ Suc (ilog2 n)" by simp_all
  from assms(1) b(2) have "(2::nat) ^ k < 2 ^ Suc (ilog2 n)" by simp
  then have 1: "k < Suc (ilog2 n)" by (simp only: power_strict_increasing_iff[of 2] one_less_numeral_iff semiring_norm)
  from b(1) assms(2) have "(2::nat) ^ ilog2 n < 2 ^ Suc k" by simp
  then have 2: "ilog2 n < Suc k" by (simp only: power_strict_increasing_iff[of 2] one_less_numeral_iff semiring_norm)
  from 1 2 show ?thesis by simp
qed

lemma ilog2_pow2 [simp]: "ilog2 (2 ^ j) = j"
  by (rule ilog2_unique) simp_all















lemma not_digit_dot: "\<not> is_digit (CHR ''.'')"
  by (simp add: is_digit_def)




























end
